theory Spec2Isabelle
  imports Main
begin

section \<open>JavaScript values\<close>

text \<open>
  The server is JavaScript, so the arguments of its functions are dynamically typed. The
  model covers the primitive values: \<open>undefined\<close>, \<open>null\<close>, booleans, numbers and
  strings. Objects and arrays, whose conversion to a string runs through methods the value
  itself can replace, are not part of the model.

  A finite number is given by its sign, its significant decimal digits \<open>s\<close> and a decimal
  exponent \<open>e\<close>: \<open>Finite neg s e\<close> is \<open>\<plusminus> s \<times> 10\<^sup>e\<close>, and \<open>s = 0\<close> is zero of either
  sign. For a double, \<open>s\<close> and \<open>e\<close> are the digits and exponent of its shortest decimal form
  that reads back as the same double (the form \<open>Number::toString\<close> prints), so \<open>7.9\<close> is
  \<open>Finite False 79 (-1)\<close> and \<open>1e21\<close> is \<open>Finite False 1 21\<close>. A string is the list of its
  code units, each at most 255.
\<close>

datatype jsnum = NaN | Infinity bool | Finite bool nat int

datatype jsval = JUndefined | JNull | JBool bool | JNum jsnum | JStr string

text \<open>Truthiness (\<open>ToBoolean\<close>), and the operator \<open>a || b\<close>.\<close>

fun js_truthy :: "jsval \<Rightarrow> bool" where
  "js_truthy JUndefined = False"
| "js_truthy JNull = False"
| "js_truthy (JBool b) = b"
| "js_truthy (JNum NaN) = False"
| "js_truthy (JNum (Infinity neg)) = True"
| "js_truthy (JNum (Finite neg s e)) = (s \<noteq> 0)"
| "js_truthy (JStr s) = (s \<noteq> [])"

definition js_or :: "jsval \<Rightarrow> jsval \<Rightarrow> jsval" where
  "js_or a b = (if js_truthy a then a else b)"

text \<open>\<open>typeof x === 'number' ? x : null\<close> and \<open>typeof x === 'string' ? x : null\<close>.\<close>

fun number_or_null :: "jsval \<Rightarrow> jsval" where
  "number_or_null (JNum x) = JNum x"
| "number_or_null _ = JNull"

fun string_or_null :: "jsval \<Rightarrow> jsval" where
  "string_or_null (JStr s) = JStr s"
| "string_or_null _ = JNull"

subsection \<open>Conversion to a string\<close>

definition digit_char :: "nat \<Rightarrow> char" where
  "digit_char d = char_of (48 + d)"

fun dec_digits :: "nat \<Rightarrow> string" where
  "dec_digits n =
     (if n < 10 then [digit_char n] else dec_digits (n div 10) @ [digit_char (n mod 10)])"

declare dec_digits.simps [simp del]

definition exponent_part :: "int \<Rightarrow> string" where
  "exponent_part ex = (if ex < 0 then ''-'' else ''+'') @ dec_digits (nat \<bar>ex\<bar>)"

text \<open>
  \<open>Number::toString\<close> in radix 10 for a positive finite number with digits \<open>s\<close> (\<open>k\<close> of
  them) and \<open>n = e + k\<close>: plain digits when \<open>k \<le> n \<le> 21\<close>, a decimal point inside the
  digits when \<open>0 < n \<le> 21\<close>, a leading \<open>0.\<close> when \<open>-6 < n \<le> 0\<close>, and exponent notation
  otherwise.
\<close>

definition pos_toString :: "nat \<Rightarrow> int \<Rightarrow> string" where
  "pos_toString s e =
     (let ds = dec_digits s; k = int (length ds); n = e + k in
      if k \<le> n \<and> n \<le> 21 then ds @ replicate (nat (n - k)) CHR ''0''
      else if 0 < n \<and> n \<le> 21 then take (nat n) ds @ ''.'' @ drop (nat n) ds
      else if -6 < n \<and> n \<le> 0 then ''0.'' @ replicate (nat (- n)) CHR ''0'' @ ds
      else if k = 1 then ds @ ''e'' @ exponent_part (n - 1)
      else take 1 ds @ ''.'' @ drop 1 ds @ ''e'' @ exponent_part (n - 1))"

fun Number_toString :: "jsnum \<Rightarrow> string" where
  "Number_toString NaN = ''NaN''"
| "Number_toString (Infinity neg) = (if neg then ''-Infinity'' else ''Infinity'')"
| "Number_toString (Finite neg s e) =
     (if s = 0 then ''0'' else (if neg then ''-'' else '''') @ pos_toString s e)"

fun js_ToString :: "jsval \<Rightarrow> string" where
  "js_ToString JUndefined = ''undefined''"
| "js_ToString JNull = ''null''"
| "js_ToString (JBool b) = (if b then ''true'' else ''false'')"
| "js_ToString (JNum x) = Number_toString x"
| "js_ToString (JStr s) = s"

subsection \<open>\<open>Number.parseInt(n, 10)\<close> and \<open>Number.isFinite\<close>\<close>

definition is_white_space :: "char \<Rightarrow> bool" where
  "is_white_space c \<longleftrightarrow> of_char c \<in> {9, 10, 11, 12, 13, 32, 160 :: nat}"

definition is_digit :: "char \<Rightarrow> bool" where
  "is_digit c \<longleftrightarrow> (48::nat) \<le> of_char c \<and> of_char c \<le> (57::nat)"

definition digit_val :: "char \<Rightarrow> nat" where
  "digit_val c = of_char c - 48"

definition digits_value :: "string \<Rightarrow> nat" where
  "digits_value ds = foldl (\<lambda>acc c. 10 * acc + digit_val c) 0 ds"

text \<open>
  \<open>parseInt\<close> with radix 10: convert the argument to a string, skip leading white space,
  read an optional sign, take the longest run of decimal digits. No digit gives \<open>NaN\<close>
  (\<open>None\<close>); otherwise the result is the Number nearest to the signed integer read, which is
  returned here as that integer.
\<close>

definition js_parseInt10 :: "string \<Rightarrow> int option" where
  "js_parseInt10 inputString =
     (let S = dropWhile is_white_space inputString;
          sign = (if S \<noteq> [] \<and> hd S = CHR ''-'' then -1 else 1 :: int);
          S' = (if S \<noteq> [] \<and> (hd S = CHR ''+'' \<or> hd S = CHR ''-'') then tl S else S);
          Z = takeWhile is_digit S'
      in if Z = [] then None else Some (sign * int (digits_value Z)))"

text \<open>
  The Number nearest to an integer \<open>m\<close> is finite exactly when \<open>\<bar>m\<bar> < 2\<^sup>1\<^sup>0\<^sup>2\<^sup>4 - 2\<^sup>9\<^sup>7\<^sup>0\<close>:
  from there on rounding to nearest gives \<open>Infinity\<close>.
\<close>

definition Number_isFinite :: "int option \<Rightarrow> bool" where
  "Number_isFinite x = (case x of None \<Rightarrow> False | Some m \<Rightarrow> \<bar>m\<bar> < 2 ^ 1024 - 2 ^ 970)"

section \<open>youtubeDownloader.js\<close>

text \<open>
  \<open>clampInt(n, min, max, fallback)\<close>. The bounds are small integers at every call (1 and
  100), so \<open>Math.max(min, Math.min(max, x))\<close> on the Number nearest to the integer read is
  the same as on the integer itself.
\<close>

definition clampInt :: "jsval \<Rightarrow> int \<Rightarrow> int \<Rightarrow> int \<Rightarrow> int" where
  "clampInt n mn mx fallback =
     (let x = js_parseInt10 (js_ToString n) in
      if \<not> Number_isFinite x then fallback
      else max mn (min mx (the x)))"

definition normalizeVideoUrl :: "jsval \<Rightarrow> jsval" where
  "normalizeVideoUrl videoId = JStr (''https://www.youtube.com/watch?v='' @ js_ToString videoId)"

definition parseUploadDate :: "jsval \<Rightarrow> jsval" where
  "parseUploadDate uploadDate =
     (case uploadDate of
        JStr s \<Rightarrow>
          if length s \<noteq> 8 then JNull
          else (let y = take 4 s; m = take 2 (drop 4 s); d = take 2 (drop 6 s)
                in JStr (y @ ''-'' @ m @ ''-'' @ d))
      | _ \<Rightarrow> JNull)"

subsection \<open>The external collaborators\<close>

text \<open>
  A thrown value is an \<open>Error\<close> object with a name and a message; \<open>error_text\<close> is the
  expression \<open>e?.message || String(e)\<close> the handlers use.
\<close>

datatype exn = Exn (exn_name: string) (exn_message: string)

definition Error_toString :: "exn \<Rightarrow> string" where
  "Error_toString e =
     (if exn_name e = [] then exn_message e
      else if exn_message e = [] then exn_name e
      else exn_name e @ '': '' @ exn_message e)"

definition error_text :: "exn \<Rightarrow> string" where
  "error_text e = (if exn_message e \<noteq> [] then exn_message e else Error_toString e)"

text \<open>
  The object \<open>v\<close> that \<open>yt-dlp --dump-single-json\<close> prints for one video, by the properties
  \<open>fetchVideoMeta\<close> reads (\<open>JUndefined\<close> for a missing one). \<open>v_thumbnails\<close> is \<open>None\<close>
  when \<open>v.thumbnails\<close> is not an array, and otherwise lists, for each element \<open>t\<close>, the
  value of \<open>t?.url\<close>.
\<close>

record ytdlp_video =
  v_id :: jsval
  v_title :: jsval
  v_description :: jsval
  v_duration :: jsval
  v_duration_string :: jsval
  v_upload_date :: jsval
  v_timestamp :: jsval
  v_view_count :: jsval
  v_like_count :: jsval
  v_comment_count :: jsval
  v_webpage_url :: jsval
  v_thumbnail :: jsval
  v_thumbnails :: "jsval list option"

text \<open>
  What the outside world answers during one job:
  \<^item> \<open>playlist max\<close>: the flat-playlist call for the job's channel with \<open>--playlist-end max\<close>,
    through \<open>JSON.parse\<close> and the read of \<open>parsed.entries\<close>: \<open>Inl\<close> for everything that
    throws on the way, that is when the binary cannot be had, the process fails, its output
    does not parse, or it parses to \<open>null\<close> (then reading \<open>parsed.entries\<close> throws a
    \<open>TypeError\<close>); otherwise \<open>parsed.entries\<close>, \<open>None\<close> when that is not an array, each
    entry \<open>e\<close> given by the value of \<open>e.id\<close> (\<open>JUndefined\<close> for a falsy entry or one
    without an id);
  \<^item> \<open>video_json videoId\<close>: the per-video call through \<open>JSON.parse\<close>, \<open>Inl\<close> when it throws;
  \<^item> \<open>date_toISOString t\<close>: \<open>new Date(t * 1000).toISOString()\<close>, which throws a
    \<open>RangeError\<close> when \<open>t * 1000\<close> is not a valid time value;
  \<^item> \<open>transcript_api videoId\<close>: \<open>YoutubeTranscript.fetchTranscript\<close>, \<open>Inl\<close> when it throws,
    \<open>None\<close> when the answer is not an array, otherwise the \<open>text\<close> of each segment.
\<close>

record env =
  playlist :: "int \<Rightarrow> exn + jsval list option"
  video_json :: "jsval \<Rightarrow> exn + ytdlp_video"
  date_toISOString :: "jsval \<Rightarrow> exn + string"
  transcript_api :: "jsval \<Rightarrow> exn + jsval list option"

subsection \<open>Transcript, enumeration, one video\<close>

definition js_trim :: "string \<Rightarrow> string" where
  "js_trim s = rev (dropWhile is_white_space (rev (dropWhile is_white_space s)))"

fun join_space :: "string list \<Rightarrow> string" where
  "join_space [] = []"
| "join_space [x] = x"
| "join_space (x # y # r) = x @ '' '' @ join_space (y # r)"

definition fetchTranscriptBestEffort :: "env \<Rightarrow> jsval \<Rightarrow> jsval" where
  "fetchTranscriptBestEffort ev videoId =
     (case transcript_api ev videoId of
        Inl e \<Rightarrow> JNull
      | Inr None \<Rightarrow> JNull
      | Inr (Some items) \<Rightarrow>
          if items = [] then JNull
          else JStr (join_space (filter (\<lambda>t. t \<noteq> [])
                 (map (\<lambda>t. case t of JStr s \<Rightarrow> js_trim s | _ \<Rightarrow> []) items))))"

definition listVideoIds :: "env \<Rightarrow> jsval \<Rightarrow> exn + jsval list" where
  "listVideoIds ev maxVideos =
     (let mx = clampInt maxVideos 1 100 10 in
      case playlist ev mx of
        Inl e \<Rightarrow> Inl e
      | Inr parsed_entries \<Rightarrow>
          (let entries = (case parsed_entries of Some es \<Rightarrow> es | None \<Rightarrow> [])
           in Inr (take (nat mx) (filter js_truthy (map string_or_null entries)))))"

record item =
  video_id :: jsval
  title :: jsval
  description :: jsval
  transcript :: jsval
  duration_seconds :: jsval
  duration_iso :: jsval
  release_date :: jsval
  view_count :: jsval
  like_count :: jsval
  comment_count :: jsval
  video_url :: jsval
  thumbnail_url :: jsval
  error :: jsval

text \<open>
  The expression for \<open>uploadDate\<close> in \<open>fetchVideoMeta\<close>:
  \<open>parseUploadDate(v.upload_date) || (v.timestamp ? new Date(v.timestamp * 1000).toISOString() : null)\<close>.
\<close>

definition uploadDate_of :: "env \<Rightarrow> ytdlp_video \<Rightarrow> exn + jsval" where
  "uploadDate_of ev v =
     (let d = parseUploadDate (v_upload_date v) in
      if js_truthy d then Inr d
      else if js_truthy (v_timestamp v) then
        (case date_toISOString ev (v_timestamp v) of Inl e \<Rightarrow> Inl e | Inr s \<Rightarrow> Inr (JStr s))
      else Inr JNull)"

text \<open>A successful record has no \<open>error\<close> property: the field is \<open>JUndefined\<close>.\<close>

definition fetchVideoMeta :: "env \<Rightarrow> jsval \<Rightarrow> exn + item" where
  "fetchVideoMeta ev videoId =
     (let url = normalizeVideoUrl videoId in
      case video_json ev videoId of
        Inl e \<Rightarrow> Inl e
      | Inr v \<Rightarrow>
          (let thumb = js_or (v_thumbnail v)
                 (case v_thumbnails v of
                    Some ts \<Rightarrow> if ts \<noteq> [] then last ts else JNull
                  | None \<Rightarrow> JNull)
           in case uploadDate_of ev v of
                Inl e \<Rightarrow> Inl e
              | Inr uploadDate \<Rightarrow>
                  Inr \<lparr> video_id = js_or (v_id v) videoId,
                        title = js_or (v_title v) (JStr ''''),
                        description = js_or (v_description v) (JStr ''''),
                        transcript = JNull,
                        duration_seconds = number_or_null (v_duration v),
                        duration_iso = string_or_null (v_duration_string v),
                        release_date = uploadDate,
                        view_count = number_or_null (v_view_count v),
                        like_count = number_or_null (v_like_count v),
                        comment_count = number_or_null (v_comment_count v),
                        video_url = js_or (v_webpage_url v) url,
                        thumbnail_url = js_or thumb JNull,
                        error = JUndefined \<rparr>))"

subsection \<open>\<open>downloadChannelData\<close>\<close>

text \<open>The argument of one \<open>onProgress\<close> call; \<open>p_item\<close> is \<open>None\<close> for \<open>null\<close>.\<close>

record progress =
  p_completed :: int
  p_total :: int
  p_video_id :: jsval
  p_error :: jsval
  p_item :: "item option"

text \<open>
  The body of the loop up to the callback, for one \<open>videoId\<close>: the record pushed onto
  \<open>results\<close>, and the values of \<open>error\<close> and \<open>item\<close> afterwards.
\<close>

definition fetch_unit :: "env \<Rightarrow> jsval \<Rightarrow> item \<times> jsval \<times> item option" where
  "fetch_unit ev videoId =
     (case fetchVideoMeta ev videoId of
        Inr fetched \<Rightarrow>
          (let it = fetched \<lparr> transcript := fetchTranscriptBestEffort ev videoId \<rparr>
           in (it, JNull, Some it))
      | Inl e \<Rightarrow>
          (let err = JStr (error_text e)
           in (\<lparr> video_id = videoId,
                  title = JStr '''',
                  description = JStr '''',
                  transcript = JNull,
                  duration_seconds = JNull,
                  duration_iso = JNull,
                  release_date = JNull,
                  view_count = JNull,
                  like_count = JNull,
                  comment_count = JNull,
                  video_url = normalizeVideoUrl videoId,
                  thumbnail_url = JNull,
                  error = err \<rparr>, err, None)))"

text \<open>
  The loop \<open>for (let i = 0; i < ids.length; i++)\<close>, from index \<open>i\<close> with the identifiers
  still to do. The calls of \<open>onProgress\<close> are collected in order: the caller's callback is
  run on each of them, in that order, in a turn of its own (see the driver below).
\<close>

fun download_loop ::
  "env \<Rightarrow> int \<Rightarrow> nat \<Rightarrow> jsval list \<Rightarrow> item list \<Rightarrow> progress list \<Rightarrow> item list \<times> progress list"
where
  "download_loop ev tot i [] results calls = (results, calls)"
| "download_loop ev tot i (videoId # rest) results calls =
     (case fetch_unit ev videoId of
        (pushed, err, it) \<Rightarrow>
          download_loop ev tot (Suc i) rest (results @ [pushed])
            (calls @ [\<lparr> p_completed = int i + 1, p_total = tot, p_video_id = videoId,
                        p_error = err, p_item = it \<rparr>]))"

text \<open>
  \<open>downloadChannelData\<close> returns \<open>{ total, results }\<close> or throws what \<open>listVideoIds\<close>
  throws; the first component is the sequence of \<open>onProgress\<close> calls it made.
\<close>

definition downloadChannelData :: "env \<Rightarrow> jsval \<Rightarrow> exn + (progress list \<times> int \<times> item list)" where
  "downloadChannelData ev maxVideos =
     (case listVideoIds ev maxVideos of
        Inl e \<Rightarrow> Inl e
      | Inr ids \<Rightarrow>
          (let tot = int (length ids) in
           case download_loop ev tot 0 ids [] [] of
             (results, calls) \<Rightarrow> Inr (calls, tot, results)))"

section \<open>index.js: the job registry and the event streams\<close>

datatype job_status = Running | Done | Error

record job =
  status :: job_status
  total :: int
  completed :: int
  results :: "item list"
  createdAt :: string
  job_error :: "string option"
  channelUrl :: string
  maxVideos :: int

text \<open>
  A server-sent event is its name and its data. A response object \<open>res\<close> is a number; the
  world holds the two global maps, what has been written to each response, and which
  responses have been ended. \<open>Set(res)\<close> is a duplicate-free list in insertion order.
\<close>

datatype payload =
    Starting
  | Snapshot job_status int int
  | ProgressData progress
  | DoneData string int
  | ErrorData string

type_synonym sse = "string \<times> payload"

record world =
  youtubeJobs :: "string \<rightharpoonup> job"
  youtubeStreams :: "string \<rightharpoonup> nat list"
  sent :: "nat \<Rightarrow> sse list"
  ended :: "nat \<Rightarrow> bool"

text \<open>Nothing reaches a response that has been ended: the write fails.\<close>

definition sseSend :: "nat \<Rightarrow> string \<Rightarrow> payload \<Rightarrow> world \<Rightarrow> world" where
  "sseSend res event data w =
     (if ended w res then w else w \<lparr> sent := (sent w)(res := sent w res @ [(event, data)]) \<rparr>)"

definition res_end :: "nat \<Rightarrow> world \<Rightarrow> world" where
  "res_end res w = w \<lparr> ended := (ended w)(res := True) \<rparr>"

definition attachStream :: "string \<Rightarrow> nat \<Rightarrow> world \<Rightarrow> world" where
  "attachStream jobId res w =
     (let s = (case youtubeStreams w jobId of None \<Rightarrow> [] | Some s \<Rightarrow> s)
      in w \<lparr> youtubeStreams := (youtubeStreams w)(jobId \<mapsto> (if res \<in> set s then s else s @ [res])) \<rparr>)"

definition broadcast :: "string \<Rightarrow> string \<Rightarrow> payload \<Rightarrow> world \<Rightarrow> world" where
  "broadcast jobId event data w =
     (case youtubeStreams w jobId of
        None \<Rightarrow> w
      | Some s \<Rightarrow> fold (\<lambda>res. sseSend res event data) s w)"

definition closeStreams :: "string \<Rightarrow> world \<Rightarrow> world" where
  "closeStreams jobId w =
     (case youtubeStreams w jobId of
        None \<Rightarrow> w
      | Some s \<Rightarrow> (fold res_end s w) \<lparr> youtubeStreams := (youtubeStreams w)(jobId := None) \<rparr>)"

subsection \<open>\<open>POST /api/youtube/jobs\<close>\<close>

text \<open>
  JavaScript runs each piece of code between two \<open>await\<close>s to its end before any other
  handler runs. The asynchronous function started by the handler is therefore a sequence
  of turns: one per \<open>onProgress\<close> call (the callback runs in the same turn as the loop body
  that calls it), and a last one for the code after \<open>await downloadChannelData\<close> or for the
  \<open>catch\<close> block, each followed by \<open>finally\<close>.
\<close>

definition onProgress :: "string \<Rightarrow> progress \<Rightarrow> world \<Rightarrow> world" where
  "onProgress jobId p w =
     (case youtubeJobs w jobId of
        None \<Rightarrow> w
      | Some j \<Rightarrow>
          broadcast jobId ''progress'' (ProgressData p)
            (w \<lparr> youtubeJobs := (youtubeJobs w)(jobId \<mapsto>
                    j \<lparr> completed := p_completed p, total := p_total p \<rparr>) \<rparr>))"

definition on_done :: "string \<Rightarrow> int \<Rightarrow> item list \<Rightarrow> world \<Rightarrow> world" where
  "on_done jobId tot rs w =
     closeStreams jobId
       (case youtubeJobs w jobId of
          None \<Rightarrow> w
        | Some j \<Rightarrow>
            broadcast jobId ''done'' (DoneData jobId tot)
              (w \<lparr> youtubeJobs := (youtubeJobs w)(jobId \<mapsto>
                      j \<lparr> status := Done, total := tot, completed := tot, results := rs \<rparr>) \<rparr>))"

definition on_error :: "string \<Rightarrow> exn \<Rightarrow> world \<Rightarrow> world" where
  "on_error jobId e w =
     closeStreams jobId
       (broadcast jobId ''error'' (ErrorData (error_text e))
          (case youtubeJobs w jobId of
             None \<Rightarrow> w
           | Some j \<Rightarrow>
               w \<lparr> youtubeJobs := (youtubeJobs w)(jobId \<mapsto>
                     j \<lparr> status := Error, job_error := Some (error_text e) \<rparr>) \<rparr>))"

datatype turn = TProgress progress | TDone int "item list" | TError exn

fun run_turn :: "string \<Rightarrow> turn \<Rightarrow> world \<Rightarrow> world" where
  "run_turn jobId (TProgress p) w = onProgress jobId p w"
| "run_turn jobId (TDone tot rs) w = on_done jobId tot rs w"
| "run_turn jobId (TError e) w = on_error jobId e w"

text \<open>The number \<open>max\<close> handed on to \<open>downloadChannelData\<close>.\<close>

definition number_of_int :: "int \<Rightarrow> jsval" where
  "number_of_int m = JNum (Finite (m < 0) (nat \<bar>m\<bar>) 0)"

definition driver_turns :: "env \<Rightarrow> int \<Rightarrow> turn list" where
  "driver_turns ev mx =
     (case downloadChannelData ev (number_of_int mx) of
        Inl e \<Rightarrow> [TError e]
      | Inr (calls, tot, rs) \<Rightarrow> map TProgress calls @ [TDone tot rs])"

text \<open>
  The handler itself, for a request body with \<open>channelUrl\<close> and \<open>maxVideos\<close>; \<open>jobId\<close> and
  \<open>now\<close> are what \<open>Date.now()\<close>, \<open>Math.random()\<close> and \<open>new Date()\<close> give. It answers 400, or
  stores the job, runs the asynchronous function up to its first \<open>await\<close> (the
  \<open>starting\<close> broadcast) and answers with the job id; the turns still to run are returned
  with the world.
\<close>

datatype response = BadRequest string | Created string int

definition post_jobs ::
  "env \<Rightarrow> string \<Rightarrow> string \<Rightarrow> jsval \<Rightarrow> jsval \<Rightarrow> world \<Rightarrow> response \<times> turn list \<times> world"
where
  "post_jobs ev jobId now channelUrl_arg maxVideos_arg w =
     (case channelUrl_arg of
        JStr url \<Rightarrow>
          if url = [] then (BadRequest ''channelUrl is required'', [], w)
          else
            (let mx = clampInt maxVideos_arg 1 100 10;
                 w1 = w \<lparr> youtubeJobs := (youtubeJobs w)(jobId \<mapsto>
                        \<lparr> status = Running, total = mx, completed = 0, results = [],
                          createdAt = now, job_error = None, channelUrl = url,
                          maxVideos = mx \<rparr>) \<rparr>;
                 w2 = broadcast jobId ''status'' Starting w1
             in (Created jobId mx, driver_turns ev mx, w2))
      | _ \<Rightarrow> (BadRequest ''channelUrl is required'', [], w))"

subsection \<open>\<open>GET /api/youtube/jobs/:jobId/stream\<close> and the \<open>close\<close> handler\<close>

definition get_stream :: "string \<Rightarrow> nat \<Rightarrow> world \<Rightarrow> world" where
  "get_stream jobId res w =
     (let w1 = attachStream jobId res w in
      case youtubeJobs w1 jobId of
        Some j \<Rightarrow>
          (let w2 = sseSend res ''status'' (Snapshot (status j) (completed j) (total j)) w1;
               w3 = (if status j = Done then sseSend res ''done'' (DoneData jobId (total j)) w2
                     else w2)
           in if status j = Error
              then sseSend res ''error''
                     (ErrorData (case job_error j of
                                   None \<Rightarrow> ''Unknown error''
                                 | Some m \<Rightarrow> if m = [] then ''Unknown error'' else m)) w3
              else w3)
      | None \<Rightarrow> sseSend res ''error'' (ErrorData ''Unknown jobId'') w1)"

definition on_close :: "string \<Rightarrow> nat \<Rightarrow> world \<Rightarrow> world" where
  "on_close jobId res w =
     (case youtubeStreams w jobId of
        None \<Rightarrow> w
      | Some s \<Rightarrow> w \<lparr> youtubeStreams := (youtubeStreams w)(jobId \<mapsto> removeAll res s) \<rparr>)"

subsection \<open>Interleavings\<close>

text \<open>
  Between two turns of the job's asynchronous function any number of stream requests for
  the job can be served and any number of connections can close. A schedule lists what
  happens, in order; \<open>run\<close> executes it on the turns still to run and the world.
\<close>

datatype action = Resume | GetStream nat | Close nat

fun step :: "string \<Rightarrow> action \<Rightarrow> turn list \<times> world \<Rightarrow> turn list \<times> world" where
  "step jobId Resume ([], w) = ([], w)"
| "step jobId Resume (t # ts, w) = (ts, run_turn jobId t w)"
| "step jobId (GetStream res) (ts, w) = (ts, get_stream jobId res w)"
| "step jobId (Close res) (ts, w) = (ts, on_close jobId res w)"

fun run :: "string \<Rightarrow> action list \<Rightarrow> turn list \<times> world \<Rightarrow> turn list \<times> world" where
  "run jobId [] st = st"
| "run jobId (a # as) st = run jobId as (step jobId a st)"

section \<open>Auxiliary notions for the statements\<close>

text \<open>The record pushed for one identifier, and the \<open>onProgress\<close> argument of iteration \<open>k\<close>.\<close>

definition pushed_record :: "env \<Rightarrow> jsval \<Rightarrow> item" where
  "pushed_record ev videoId = fst (fetch_unit ev videoId)"

definition call_of :: "env \<Rightarrow> int \<Rightarrow> nat \<times> jsval \<Rightarrow> progress" where
  "call_of ev tot kv =
     \<lparr> p_completed = int (fst kv) + 1, p_total = tot, p_video_id = snd kv,
       p_error = fst (snd (fetch_unit ev (snd kv))),
       p_item = snd (snd (fetch_unit ev (snd kv))) \<rparr>"

text \<open>A record carries an error when its \<open>error\<close> property is present and not \<open>null\<close>.\<close>

definition has_error :: "item \<Rightarrow> bool" where
  "has_error r \<longleftrightarrow> error r \<noteq> JUndefined \<and> error r \<noteq> JNull"

text \<open>What one turn does to the job's record, and the event it publishes.\<close>

fun turn_job :: "turn \<Rightarrow> job \<Rightarrow> job" where
  "turn_job (TProgress p) j = j \<lparr> completed := p_completed p, total := p_total p \<rparr>"
| "turn_job (TDone tot rs) j = j \<lparr> status := Done, total := tot, completed := tot, results := rs \<rparr>"
| "turn_job (TError e) j = j \<lparr> status := Error, job_error := Some (error_text e) \<rparr>"

fun turn_event :: "string \<Rightarrow> turn \<Rightarrow> sse" where
  "turn_event jobId (TProgress p) = (''progress'', ProgressData p)"
| "turn_event jobId (TDone tot rs) = (''done'', DoneData jobId tot)"
| "turn_event jobId (TError e) = (''error'', ErrorData (error_text e))"

definition resumes :: "action list \<Rightarrow> nat" where
  "resumes sched = length (filter (\<lambda>a. a = Resume) sched)"

text \<open>A request creates the job, then a schedule runs.\<close>

definition run_job ::
  "env \<Rightarrow> string \<Rightarrow> string \<Rightarrow> jsval \<Rightarrow> jsval \<Rightarrow> action list \<Rightarrow> world \<Rightarrow> turn list \<times> world"
where
  "run_job ev jobId now url mv sched w =
     (case post_jobs ev jobId now url mv w of (resp, ts, w1) \<Rightarrow> run jobId sched (ts, w1))"

text \<open>Concrete collaborators and worlds for the examples.\<close>

definition example_video :: ytdlp_video where
  "example_video =
     \<lparr> v_id = JStr ''a'', v_title = JStr ''T'', v_description = JUndefined,
       v_duration = JNum (Finite False 61 0), v_duration_string = JStr ''1:01'',
       v_upload_date = JStr ''20240131'', v_timestamp = JNum (Finite False 1706659200 0),
       v_view_count = JNum (Finite False 5 0), v_like_count = JUndefined,
       v_comment_count = JNull, v_webpage_url = JUndefined, v_thumbnail = JUndefined,
       v_thumbnails = Some [JStr ''small.jpg'', JStr ''large.jpg''] \<rparr>"

definition example_env :: env where
  "example_env =
     \<lparr> playlist = (\<lambda>mx. Inr (Some [JStr ''a'', JStr ''b'', JNull, JStr ''c''])),
       video_json = (\<lambda>v. if v = JStr ''b'' then Inl (Exn ''Error'' ''unavailable'')
                           else Inr example_video),
       date_toISOString = (\<lambda>t. Inr ''2024-01-31T00:00:00.000Z''),
       transcript_api = (\<lambda>v. Inr (Some [JStr '' hello '', JStr ''world''])) \<rparr>"

definition empty_world :: world where
  "empty_world =
     \<lparr> youtubeJobs = Map.empty, youtubeStreams = Map.empty,
       sent = (\<lambda>res. []), ended = (\<lambda>res. False) \<rparr>"

definition no_entries_env :: env where
  "no_entries_env =
     \<lparr> playlist = (\<lambda>mx. Inr None),
       video_json = (\<lambda>v. Inr example_video),
       date_toISOString = (\<lambda>t. Inr ''2024-01-31T00:00:00.000Z''),
       transcript_api = (\<lambda>v. Inr None) \<rparr>"

definition failing_playlist_env :: env where
  "failing_playlist_env =
     example_env \<lparr> playlist := (\<lambda>mx. Inl (Exn ''Error'' ''yt-dlp failed'')) \<rparr>"

text \<open>
  The claims' word \<open>numeric\<close>, read generously: a number other than \<open>NaN\<close>, or a non-empty
  string made only of characters that occur in decimal numerals.
\<close>

definition claimed_numeric :: "jsval \<Rightarrow> bool" where
  "claimed_numeric v =
     (case v of
        JNum x \<Rightarrow> x \<noteq> NaN
      | JStr s \<Rightarrow> s \<noteq> [] \<and> list_all (\<lambda>c. is_digit c \<or> c \<in> set ''+-.eE'' \<or> is_white_space c) s
      | _ \<Rightarrow> False)"

text \<open>
  Two answers of \<open>yt-dlp\<close> without a compact upload date: one dated at the epoch itself,
  one whose \<open>upload_date\<close> has eight characters that are not digits.
\<close>

definition epoch_video :: ytdlp_video where
  "epoch_video = example_video \<lparr> v_upload_date := JNull, v_timestamp := JNum (Finite False 0 0) \<rparr>"

definition odd_date_video :: ytdlp_video where
  "odd_date_video = example_video \<lparr> v_upload_date := JStr ''tomorrow'', v_timestamp := JNull \<rparr>"

text \<open>
  What \<open>get_stream\<close> writes to a new subscriber of a job that exists: the snapshot, and the
  terminal event when the job has one.
\<close>

definition replay :: "string \<Rightarrow> job \<Rightarrow> sse list" where
  "replay jobId j =
     (''status'', Snapshot (status j) (completed j) (total j)) #
     (if status j = Done then [(''done'', DoneData jobId (total j))]
      else if status j = Error then
        [(''error'', ErrorData (case job_error j of
                                 None \<Rightarrow> ''Unknown error''
                               | Some m \<Rightarrow> if m = [] then ''Unknown error'' else m))]
      else [])"

text \<open>The record the handler stores, and the job after \<open>n\<close> turns of its function.\<close>

definition initial_job :: "string \<Rightarrow> string \<Rightarrow> jsval \<Rightarrow> job" where
  "initial_job now url mv =
     \<lparr> status = Running, total = clampInt mv 1 100 10, completed = 0, results = [],
       createdAt = now, job_error = None, channelUrl = url,
       maxVideos = clampInt mv 1 100 10 \<rparr>"

definition job_after :: "env \<Rightarrow> string \<Rightarrow> string \<Rightarrow> jsval \<Rightarrow> nat \<Rightarrow> job" where
  "job_after ev now url mv n =
     fold turn_job (take n (driver_turns ev (clampInt mv 1 100 10))) (initial_job now url mv)"

text \<open>
  A response is attached to a job when it is open and in the job's set; it is unseen when
  nothing has been written to it, it is open and it is in no set of the job. The set of a
  job never holds a response twice.
\<close>

definition attached :: "string \<Rightarrow> nat \<Rightarrow> world \<Rightarrow> bool" where
  "attached jobId r w \<longleftrightarrow>
     \<not> ended w r \<and>
     (case youtubeStreams w jobId of None \<Rightarrow> False | Some s \<Rightarrow> r \<in> set s \<and> distinct s)"

definition unseen :: "string \<Rightarrow> nat \<Rightarrow> world \<Rightarrow> bool" where
  "unseen jobId r w \<longleftrightarrow>
     sent w r = [] \<and> \<not> ended w r \<and>
     (case youtubeStreams w jobId of None \<Rightarrow> True | Some s \<Rightarrow> r \<notin> set s \<and> distinct s)"

text \<open>A schedule leaves a response alone when it neither attaches nor closes it.\<close>

definition leaves_alone :: "action list \<Rightarrow> nat \<Rightarrow> bool" where
  "leaves_alone sched r \<longleftrightarrow> GetStream r \<notin> set sched \<and> Close r \<notin> set sched"

text \<open>In the turns of a job's function only the last one is not a progress turn.\<close>

fun turns_shape :: "turn list \<Rightarrow> bool" where
  "turns_shape [] = True"
| "turns_shape [t] = True"
| "turns_shape (TProgress p # t # ts) = turns_shape (t # ts)"
| "turns_shape (_ # _ # _) = False"

text \<open>
  The order of event kinds the claims speak of, \<open>status* progress* (done | error)\<close>, and
  the \<open>completed\<close> counts of the progress events in a log.
\<close>

definition stream_pattern :: "string list \<Rightarrow> bool" where
  "stream_pattern kinds =
     (case dropWhile (\<lambda>k. k = ''progress'') (dropWhile (\<lambda>k. k = ''status'') kinds) of
        [k] \<Rightarrow> k = ''done'' \<or> k = ''error''
      | _ \<Rightarrow> False)"

fun progress_counts :: "sse list \<Rightarrow> int list" where
  "progress_counts [] = []"
| "progress_counts ((k, ProgressData p) # es) = p_completed p # progress_counts es"
| "progress_counts (_ # es) = progress_counts es"

text \<open>What has been written to response \<open>r\<close> after a request created the job and a schedule ran.\<close>

definition observed ::
  "env \<Rightarrow> string \<Rightarrow> string \<Rightarrow> string \<Rightarrow> jsval \<Rightarrow> action list \<Rightarrow> world \<Rightarrow> nat \<Rightarrow> sse list"
where
  "observed ev jobId now url mv sched w r =
     sent (snd (run_job ev jobId now (JStr url) mv sched w)) r"

text \<open>
  The integer prefix of a string, in the claims' words: after leading white space, an
  optional sign and the longest run of decimal digits, which is not empty.
\<close>

definition has_leading_integer :: "string \<Rightarrow> int \<Rightarrow> bool" where
  "has_leading_integer str m \<longleftrightarrow>
     (\<exists>ws sg ds rest.
        str = ws @ sg @ ds @ rest \<and> list_all is_white_space ws \<and>
        (sg = [] \<or> sg = ''-'' \<or> sg = ''+'') \<and> ds \<noteq> [] \<and> list_all is_digit ds \<and>
        (rest = [] \<or> \<not> is_digit (hd rest)) \<and>
        m = (if sg = ''-'' then - 1 else 1) * int (digits_value ds))"

text \<open>The value of a finite number cut off towards zero.\<close>

definition number_trunc :: "bool \<Rightarrow> nat \<Rightarrow> int \<Rightarrow> int" where
  "number_trunc neg s e =
     (if neg then - 1 else 1) *
     (if 0 \<le> e then int s * 10 ^ nat e else int s div 10 ^ nat (- e))"

text \<open>A response is registered for a job when it is in the job's set.\<close>

definition registered :: "string \<Rightarrow> nat \<Rightarrow> world \<Rightarrow> bool" where
  "registered jobId r w \<longleftrightarrow>
     (case youtubeStreams w jobId of None \<Rightarrow> False | Some s \<Rightarrow> r \<in> set s)"

section \<open>Properties\<close>

subsection \<open>The loop\<close>

lemma download_loop_eq:
  "download_loop ev tot i ids rs calls =
     (rs @ map (pushed_record ev) ids, calls @ map (call_of ev tot) (enumerate i ids))"
proof (induction ids arbitrary: i rs calls)
  case Nil
  show ?case by simp
next
  case (Cons v ids)
  show ?case
    by (cases "fetch_unit ev v") (simp add: Cons.IH pushed_record_def call_of_def)
qed

lemma downloadChannelData_eq:
  "downloadChannelData ev mv =
     (case listVideoIds ev mv of
        Inl e \<Rightarrow> Inl e
      | Inr ids \<Rightarrow> Inr (map (call_of ev (int (length ids))) (enumerate 0 ids),
                       int (length ids), map (pushed_record ev) ids))"
  by (simp add: downloadChannelData_def download_loop_eq Let_def split: sum.splits)

lemma fetchVideoMeta_no_error: "fetchVideoMeta ev v = Inr it \<Longrightarrow> error it = JUndefined"
  by (auto simp: fetchVideoMeta_def Let_def split: sum.splits)

lemma has_error_pushed: "has_error (pushed_record ev v) \<longleftrightarrow> isl (fetchVideoMeta ev v)"
  by (cases "fetchVideoMeta ev v")
     (auto simp: has_error_def pushed_record_def fetch_unit_def Let_def
           dest: fetchVideoMeta_no_error)

lemma count_errors:
  "length (filter has_error (map (pushed_record ev) ids)) =
   length (filter (\<lambda>v. isl (fetchVideoMeta ev v)) ids)"
  by (simp add: filter_map o_def has_error_pushed)

subsection \<open>Frame lemmas for the handlers\<close>

lemma fold_sseSend_fields [simp]:
  "youtubeJobs (fold (\<lambda>res. sseSend res ev d) s w) = youtubeJobs w"
  "youtubeStreams (fold (\<lambda>res. sseSend res ev d) s w) = youtubeStreams w"
  "ended (fold (\<lambda>res. sseSend res ev d) s w) = ended w"
  by (induction s arbitrary: w; simp add: sseSend_def)+

lemma fold_res_end_fields [simp]:
  "youtubeJobs (fold res_end s w) = youtubeJobs w"
  "youtubeStreams (fold res_end s w) = youtubeStreams w"
  "sent (fold res_end s w) = sent w"
  by (induction s arbitrary: w; simp add: res_end_def)+

lemma fold_res_end_ended:
  "ended (fold res_end s w) r \<longleftrightarrow> ended w r \<or> r \<in> set s"
  by (induction s arbitrary: w) (auto simp: res_end_def)

lemma broadcast_jobs [simp]: "youtubeJobs (broadcast jobId ev d w) = youtubeJobs w"
  by (simp add: broadcast_def split: option.splits)

lemma closeStreams_jobs [simp]: "youtubeJobs (closeStreams jobId w) = youtubeJobs w"
  by (simp add: closeStreams_def split: option.splits)

lemma sseSend_jobs [simp]: "youtubeJobs (sseSend res ev d w) = youtubeJobs w"
  by (simp add: sseSend_def)

lemma attachStream_jobs [simp]: "youtubeJobs (attachStream jobId res w) = youtubeJobs w"
  by (simp add: attachStream_def Let_def)

lemma get_stream_jobs [simp]: "youtubeJobs (get_stream jobId res w) = youtubeJobs w"
  by (simp add: get_stream_def Let_def split: option.splits)

lemma on_close_jobs [simp]: "youtubeJobs (on_close jobId res w) = youtubeJobs w"
  by (simp add: on_close_def split: option.splits)

lemma run_turn_job:
  "youtubeJobs (run_turn jobId t w) =
     (case youtubeJobs w jobId of None \<Rightarrow> youtubeJobs w
      | Some j \<Rightarrow> (youtubeJobs w)(jobId \<mapsto> turn_job t j))"
  by (cases t) (simp_all add: onProgress_def on_done_def on_error_def split: option.splits)

lemma run_jobs:
  "youtubeJobs w jobId = Some j \<Longrightarrow>
   youtubeJobs (snd (run jobId sched (ts, w))) jobId =
     Some (fold turn_job (take (resumes sched) ts) j)"
proof (induction sched arbitrary: ts w j)
  case Nil
  then show ?case by (simp add: resumes_def)
next
  case (Cons a sched)
  show ?case
  proof (cases a)
    case Resume
    show ?thesis
    proof (cases ts)
      case Nil
      with Cons Resume show ?thesis by (simp add: resumes_def)
    next
      case (Cons t ts')
      with Cons.IH[of "run_turn jobId t w" "turn_job t j" ts'] Cons.prems Resume
      show ?thesis by (simp add: resumes_def run_turn_job)
    qed
  next
    case (GetStream r)
    with Cons.IH[of "get_stream jobId r w" j ts] Cons.prems show ?thesis
      by (simp add: resumes_def)
  next
    case (Close r)
    with Cons.IH[of "on_close jobId r w" j ts] Cons.prems show ?thesis
      by (simp add: resumes_def)
  qed
qed

lemma run_turns:
  "fst (run jobId sched (ts, w)) = drop (resumes sched) ts"
proof (induction sched arbitrary: ts w)
  case Nil
  then show ?case by (simp add: resumes_def)
next
  case (Cons a sched)
  show ?case
  proof (cases a)
    case Resume
    then show ?thesis using Cons.IH by (cases ts) (simp_all add: resumes_def)
  qed (simp_all add: Cons.IH resumes_def)
qed

lemma run_job_created:
  "url \<noteq> [] \<Longrightarrow>
   run_job ev jobId now (JStr url) mv sched w =
     run jobId sched
       (driver_turns ev (clampInt mv 1 100 10),
        broadcast jobId ''status'' Starting
          (w \<lparr> youtubeJobs := (youtubeJobs w)(jobId \<mapsto>
                 \<lparr> status = Running, total = clampInt mv 1 100 10, completed = 0,
                   results = [], createdAt = now, job_error = None, channelUrl = url,
                   maxVideos = clampInt mv 1 100 10 \<rparr>) \<rparr>))"
  by (simp add: run_job_def post_jobs_def Let_def)

lemma driver_turns_ok:
  "listVideoIds ev (number_of_int mx) = Inr ids \<Longrightarrow>
   driver_turns ev mx =
     map TProgress (map (call_of ev (int (length ids))) (enumerate 0 ids))
       @ [TDone (int (length ids)) (map (pushed_record ev) ids)]"
  by (simp add: driver_turns_def downloadChannelData_eq)

lemma driver_turns_fail:
  "listVideoIds ev (number_of_int mx) = Inl e \<Longrightarrow> driver_turns ev mx = [TError e]"
  by (simp add: driver_turns_def downloadChannelData_eq)

subsection \<open>Completion of a batch\<close>

text \<open>
  C1. When the enumeration yields \<open>N\<close> identifiers, of which \<open>k\<close> fail to fetch, the job's
  function runs through all of its \<open>N + 1\<close> turns whatever requests are served in between,
  and the job ends \<open>done\<close> with \<open>completed = total = N\<close>, \<open>N\<close> results, and exactly \<open>k\<close> of
  them carrying an error: no failure of a single unit stops the batch.
\<close>

theorem batch_completes_despite_unit_failures:
  assumes "url \<noteq> []"
    and "listVideoIds ev (number_of_int (clampInt mv 1 100 10)) = Inr ids"
    and "length ids < resumes sched"
  shows "fst (run_job ev jobId now (JStr url) mv sched w) = [] \<and>
    (\<exists>j. youtubeJobs (snd (run_job ev jobId now (JStr url) mv sched w)) jobId = Some j \<and>
         status j = Done \<and> completed j = int (length ids) \<and> total j = int (length ids) \<and>
         length (results j) = length ids \<and>
         length (filter has_error (results j)) =
           length (filter (\<lambda>v. isl (fetchVideoMeta ev v)) ids))"
proof -
  let ?mx = "clampInt mv 1 100 10"
  have ts: "driver_turns ev ?mx =
      map TProgress (map (call_of ev (int (length ids))) (enumerate 0 ids))
        @ [TDone (int (length ids)) (map (pushed_record ev) ids)]"
    using assms(2) by (rule driver_turns_ok)
  have len: "length (driver_turns ev ?mx) \<le> resumes sched"
    using assms(3) by (simp add: ts)
  have "fst (run_job ev jobId now (JStr url) mv sched w) = []"
    using len by (simp add: run_job_created[OF assms(1)] run_turns)
  moreover have "\<exists>j. youtubeJobs (snd (run_job ev jobId now (JStr url) mv sched w)) jobId = Some j \<and>
         status j = Done \<and> completed j = int (length ids) \<and> total j = int (length ids) \<and>
         length (results j) = length ids \<and>
         length (filter has_error (results j)) =
           length (filter (\<lambda>v. isl (fetchVideoMeta ev v)) ids)"
    using len
    by (simp add: run_job_created[OF assms(1)] run_jobs) (simp add: ts filter_map o_def has_error_pushed)
  ultimately show ?thesis by blast
qed

lemma clampInt_3: "clampInt (JNum (Finite False 3 0)) 1 100 10 = 3"
  by code_simp

lemma example_ids:
  "listVideoIds example_env (number_of_int 3) = Inr [JStr ''a'', JStr ''b'', JStr ''c'']"
  by (simp add: listVideoIds_def number_of_int_def clampInt_3 example_env_def)

lemma example_fetch_b:
  "fetchVideoMeta example_env (JStr ''b'') = Inl (Exn ''Error'' ''unavailable'')"
  by (simp add: fetchVideoMeta_def example_env_def)

lemma example_fetch_ok:
  "v \<noteq> JStr ''b'' \<Longrightarrow> \<not> isl (fetchVideoMeta example_env v)"
  by (simp add: fetchVideoMeta_def example_env_def uploadDate_of_def parseUploadDate_def
        example_video_def Let_def)

theorem batch_completes_witness:
  "listVideoIds example_env (number_of_int (clampInt (JNum (Finite False 3 0)) 1 100 10))
     = Inr [JStr ''a'', JStr ''b'', JStr ''c''] \<and>
   length [JStr ''a'', JStr ''b'', JStr ''c''] < resumes [Resume, GetStream 0, Resume, Resume, Resume] \<and>
   fst (run_job example_env ''j1'' ''t0'' (JStr ''u'') (JNum (Finite False 3 0))
          [Resume, GetStream 0, Resume, Resume, Resume] empty_world) = [] \<and>
   (\<exists>j. youtubeJobs (snd (run_job example_env ''j1'' ''t0'' (JStr ''u'') (JNum (Finite False 3 0))
          [Resume, GetStream 0, Resume, Resume, Resume] empty_world)) ''j1'' = Some j \<and>
        status j = Done \<and> completed j = 3 \<and> total j = 3 \<and> length (results j) = 3 \<and>
        length (filter has_error (results j)) = 1)"
proof -
  have h1: "listVideoIds example_env (number_of_int (clampInt (JNum (Finite False 3 0)) 1 100 10))
     = Inr [JStr ''a'', JStr ''b'', JStr ''c'']"
    by (simp add: clampInt_3 example_ids)
  have h2: "length [JStr ''a'', JStr ''b'', JStr ''c''] < resumes [Resume, GetStream 0, Resume, Resume, Resume]"
    by (simp add: resumes_def)
  have h3: "length (filter (\<lambda>v. isl (fetchVideoMeta example_env v)) [JStr ''a'', JStr ''b'', JStr ''c'']) = 1"
    by (simp add: example_fetch_b example_fetch_ok)
  have h0: "''u'' \<noteq> []" by simp
  from batch_completes_despite_unit_failures [OF h0 h1 h2, of "''j1''" "''t0''" empty_world]
  show ?thesis
    unfolding h3 using h1 h2 by (simp add: eval_nat_numeral)
qed

subsection \<open>Order of the results\<close>

text \<open>
  C5. The loop appends exactly one record per identifier, in enumeration order:
  \<open>results[i]\<close> is the record built for the \<open>i\<close>-th identifier, and the \<open>i\<close>-th progress call
  names that identifier with \<open>completed = i + 1\<close>.
\<close>

theorem results_follow_enumeration_order:
  assumes "listVideoIds ev mv = Inr ids"
  shows "\<exists>calls rs. downloadChannelData ev mv = Inr (calls, int (length ids), rs) \<and>
           length rs = length ids \<and> length calls = length ids \<and>
           (\<forall>i<length ids.
              rs ! i = fst (fetch_unit ev (ids ! i)) \<and>
              p_video_id (calls ! i) = ids ! i \<and>
              p_completed (calls ! i) = int i + 1 \<and>
              (isl (fetchVideoMeta ev (ids ! i)) \<longrightarrow> video_id (rs ! i) = ids ! i))"
proof -
  have unit: "isl (fetchVideoMeta ev v) \<Longrightarrow> video_id (pushed_record ev v) = v" for v
    by (cases "fetchVideoMeta ev v") (simp_all add: pushed_record_def fetch_unit_def Let_def)
  show ?thesis
    using assms
    by (simp add: downloadChannelData_eq nth_enumerate_eq call_of_def unit)
       (simp add: pushed_record_def)
qed

theorem results_follow_enumeration_order_witness:
  "listVideoIds example_env (number_of_int 3) = Inr [JStr ''a'', JStr ''b'', JStr ''c''] \<and>
   (\<exists>calls rs. downloadChannelData example_env (number_of_int 3)
        = Inr (calls, int (length [JStr ''a'', JStr ''b'', JStr ''c'']), rs) \<and>
      rs ! 1 = fst (fetch_unit example_env (JStr ''b'')) \<and>
      p_video_id (calls ! 1) = JStr ''b'' \<and> p_completed (calls ! 1) = 2 \<and>
      video_id (rs ! 1) = JStr ''b'')"
proof -
  from results_follow_enumeration_order [OF example_ids]
  obtain calls rs where
    d: "downloadChannelData example_env (number_of_int 3)
          = Inr (calls, int (length [JStr ''a'', JStr ''b'', JStr ''c'']), rs)"
    and a: "\<forall>i<length [JStr ''a'', JStr ''b'', JStr ''c''].
              rs ! i = fst (fetch_unit example_env ([JStr ''a'', JStr ''b'', JStr ''c''] ! i)) \<and>
              p_video_id (calls ! i) = [JStr ''a'', JStr ''b'', JStr ''c''] ! i \<and>
              p_completed (calls ! i) = int i + 1 \<and>
              (isl (fetchVideoMeta example_env ([JStr ''a'', JStr ''b'', JStr ''c''] ! i)) \<longrightarrow>
                 video_id (rs ! i) = [JStr ''a'', JStr ''b'', JStr ''c''] ! i)"
    by blast
  have i1: "1 < length [JStr ''a'', JStr ''b'', JStr ''c'']" by simp
  from a [rule_format, OF i1]
  have "rs ! 1 = fst (fetch_unit example_env (JStr ''b'')) \<and>
      p_video_id (calls ! 1) = JStr ''b'' \<and> p_completed (calls ! 1) = 2 \<and>
      video_id (rs ! 1) = JStr ''b''"
    by (simp add: example_fetch_b fetch_unit_def Let_def)
  with d example_ids show ?thesis by blast
qed

subsection \<open>The record of a failed unit\<close>

text \<open>
  C4, as the code has it. When the metadata fetch of the \<open>i\<close>-th identifier fails, the
  record at index \<open>i\<close> carries the identifier and the error text; \<open>transcript\<close>, the two
  duration fields, \<open>release_date\<close>, the three counts and \<open>thumbnail_url\<close> are \<open>null\<close>;
  \<open>title\<close> and \<open>description\<close> are the empty string, not \<open>null\<close>, and \<open>video_url\<close> is the
  canonical URL of the identifier.
\<close>

theorem failed_unit_placeholder:
  assumes "listVideoIds ev mv = Inr ids" and "i < length ids"
    and "fetchVideoMeta ev (ids ! i) = Inl e"
  shows "\<exists>calls tot rs. downloadChannelData ev mv = Inr (calls, tot, rs) \<and> i < length rs \<and>
           rs ! i = \<lparr> video_id = ids ! i, title = JStr '''', description = JStr '''',
                      transcript = JNull, duration_seconds = JNull, duration_iso = JNull,
                      release_date = JNull, view_count = JNull, like_count = JNull,
                      comment_count = JNull, video_url = normalizeVideoUrl (ids ! i),
                      thumbnail_url = JNull, error = JStr (error_text e) \<rparr>"
  using assms
  by (simp add: downloadChannelData_eq pushed_record_def fetch_unit_def Let_def)

theorem failed_unit_placeholder_witness:
  "listVideoIds example_env (number_of_int 3) = Inr [JStr ''a'', JStr ''b'', JStr ''c''] \<and>
   fetchVideoMeta example_env ([JStr ''a'', JStr ''b'', JStr ''c''] ! 1)
     = Inl (Exn ''Error'' ''unavailable'') \<and>
   (\<exists>calls tot rs. downloadChannelData example_env (number_of_int 3) = Inr (calls, tot, rs) \<and>
      1 < length rs \<and>
      rs ! 1 = \<lparr> video_id = JStr ''b'', title = JStr '''', description = JStr '''',
                 transcript = JNull, duration_seconds = JNull, duration_iso = JNull,
                 release_date = JNull, view_count = JNull, like_count = JNull,
                 comment_count = JNull, video_url = normalizeVideoUrl (JStr ''b''),
                 thumbnail_url = JNull, error = JStr ''unavailable'' \<rparr>)"
proof -
  have h2: "1 < length [JStr ''a'', JStr ''b'', JStr ''c'']" by simp
  have h3: "fetchVideoMeta example_env ([JStr ''a'', JStr ''b'', JStr ''c''] ! 1)
     = Inl (Exn ''Error'' ''unavailable'')"
    by (simp add: example_fetch_b)
  from failed_unit_placeholder [OF example_ids h2 h3] example_ids h3
  show ?thesis by (simp add: error_text_def)
qed

text \<open>The claim as stated fails: the title of a failed unit's record is not \<open>null\<close>.\<close>

theorem failed_unit_title_not_null:
  "fetchVideoMeta example_env (JStr ''b'') = Inl (Exn ''Error'' ''unavailable'') \<and>
   title (fst (fetch_unit example_env (JStr ''b''))) = JStr '''' \<and>
   title (fst (fetch_unit example_env (JStr ''b''))) \<noteq> JNull \<and>
   description (fst (fetch_unit example_env (JStr ''b''))) \<noteq> JNull"
  by (simp add: example_fetch_b fetch_unit_def Let_def)

subsection \<open>The effective maximum\<close>

lemma clampInt_range: "1 \<le> clampInt v 1 100 10 \<and> clampInt v 1 100 10 \<le> 100"
  by (simp add: clampInt_def Let_def)

lemma clampInt_undefined: "clampInt JUndefined 1 100 10 = 10"
  by code_simp

lemma clampInt_null: "clampInt JNull 1 100 10 = 10"
  by code_simp

lemma clampInt_true: "clampInt (JBool True) 1 100 10 = 10"
  by code_simp

lemma clampInt_false: "clampInt (JBool False) 1 100 10 = 10"
  by code_simp

lemma clampInt_bool: "clampInt (JBool b) 1 100 10 = 10"
  by (cases b) (simp_all add: clampInt_true clampInt_false)

lemma clampInt_NaN: "clampInt (JNum NaN) 1 100 10 = 10"
  by code_simp

lemma clampInt_pos_Infinity: "clampInt (JNum (Infinity False)) 1 100 10 = 10"
  by code_simp

lemma clampInt_neg_Infinity: "clampInt (JNum (Infinity True)) 1 100 10 = 10"
  by code_simp

lemma clampInt_Infinity: "clampInt (JNum (Infinity neg)) 1 100 10 = 10"
  by (cases neg) (simp_all add: clampInt_pos_Infinity clampInt_neg_Infinity)

lemma clampInt_empty: "clampInt (JStr []) 1 100 10 = 10"
  by code_simp

text \<open>
  C8, as the code has it. For every input the effective maximum lies in \<open>[1, 100]\<close>. When
  the string form of the input starts (after white space) with an optionally signed run
  of digits whose value \<open>m\<close> is finite as a Number, the effective maximum is \<open>m\<close> clamped to
  the nearest bound; when it does not, or \<open>m\<close> is too large to be finite, it is the default
  10. So \<open>undefined\<close>, \<open>null\<close>, booleans, \<open>NaN\<close>, the infinities and the empty string give
  10, while an input with a leading integer is used even when the whole of it is not a
  numeral.
\<close>

theorem effective_max_clamped:
  "1 \<le> clampInt v 1 100 10 \<and> clampInt v 1 100 10 \<le> 100 \<and>
   (\<forall>m. js_parseInt10 (js_ToString v) = Some m \<and> \<bar>m\<bar> < 2 ^ 1024 - 2 ^ 970 \<longrightarrow>
        clampInt v 1 100 10 = (if m < 1 then 1 else if 100 < m then 100 else m)) \<and>
   (js_parseInt10 (js_ToString v) = None \<or>
    (\<exists>m. js_parseInt10 (js_ToString v) = Some m \<and> 2 ^ 1024 - 2 ^ 970 \<le> \<bar>m\<bar>) \<longrightarrow>
        clampInt v 1 100 10 = 10) \<and>
   clampInt JUndefined 1 100 10 = 10 \<and> clampInt JNull 1 100 10 = 10 \<and>
   (\<forall>b. clampInt (JBool b) 1 100 10 = 10) \<and> clampInt (JNum NaN) 1 100 10 = 10 \<and>
   (\<forall>neg. clampInt (JNum (Infinity neg)) 1 100 10 = 10) \<and> clampInt (JStr []) 1 100 10 = 10"
proof -
  have a: "clampInt v 1 100 10 = (if m < 1 then 1 else if 100 < m then 100 else m)"
    if "js_parseInt10 (js_ToString v) = Some m" and "\<bar>m\<bar> < 2 ^ 1024 - 2 ^ 970" for m
    using that by (simp add: clampInt_def Number_isFinite_def Let_def)
  have b: "clampInt v 1 100 10 = 10" if "js_parseInt10 (js_ToString v) = None"
    using that by (simp add: clampInt_def Number_isFinite_def)
  have c: "clampInt v 1 100 10 = 10"
    if "js_parseInt10 (js_ToString v) = Some m" and "2 ^ 1024 - 2 ^ 970 \<le> \<bar>m\<bar>" for m
    using that by (simp add: clampInt_def Number_isFinite_def Let_def)
  from a b c clampInt_range [of v] clampInt_undefined clampInt_null clampInt_bool
    clampInt_NaN clampInt_Infinity clampInt_empty
  show ?thesis by blast
qed

lemma parse_250: "js_parseInt10 (js_ToString (JStr ''250'')) = Some 250"
  by code_simp

theorem effective_max_clamped_witness:
  "js_parseInt10 (js_ToString (JStr ''250'')) = Some 250 \<and> \<bar>250 :: int\<bar> < 2 ^ 1024 - 2 ^ 970 \<and>
   clampInt (JStr ''250'') 1 100 10 = 100"
proof -
  have small: "\<bar>250 :: int\<bar> < 2 ^ 1024 - 2 ^ 970" by simp
  from effective_max_clamped [of "JStr ''250''"]
  have "js_parseInt10 (js_ToString (JStr ''250'')) = Some 250 \<and> \<bar>250 :: int\<bar> < 2 ^ 1024 - 2 ^ 970 \<longrightarrow>
        clampInt (JStr ''250'') 1 100 10 = (if (250::int) < 1 then 1 else if 100 < (250::int) then 100 else 250)"
    by blast
  with parse_250 small show ?thesis by simp
qed

text \<open>
  The claim as stated fails: \<open>"5abc"\<close> is not numeric, yet it does not yield the default
  10 but its leading integer 5.
\<close>

theorem non_numeric_input_not_defaulted:
  "\<not> claimed_numeric (JStr ''5abc'') \<and> clampInt (JStr ''5abc'') 1 100 10 = 5 \<and>
   clampInt (JStr ''5abc'') 1 100 10 \<noteq> 10"
proof -
  have "\<not> claimed_numeric (JStr ''5abc'')" by code_simp
  moreover have "clampInt (JStr ''5abc'') 1 100 10 = 5" by code_simp
  ultimately show ?thesis by simp
qed

subsection \<open>The release date\<close>

text \<open>
  C9, as the code has it. For a video whose JSON was fetched: an \<open>upload_date\<close> that is a
  string of exactly eight characters (digits or not) is cut into \<open>4-2-2\<close> with dashes;
  otherwise, if \<open>timestamp\<close> is truthy (so not absent, \<open>null\<close>, 0 or \<open>NaN\<close>), the release
  date is the ISO-8601 text of \<open>new Date(timestamp * 1000)\<close>, and the fetch of the unit
  fails when that conversion throws; otherwise the release date is \<open>null\<close>.
\<close>

theorem release_date_normalized:
  assumes "video_json ev videoId = Inr v"
  shows
   "(\<forall>s. v_upload_date v = JStr s \<and> length s = 8 \<longrightarrow>
       (\<exists>it. fetchVideoMeta ev videoId = Inr it \<and>
             release_date it = JStr (take 4 s @ ''-'' @ take 2 (drop 4 s) @ ''-'' @ take 2 (drop 6 s)))) \<and>
    ((\<forall>s. v_upload_date v = JStr s \<longrightarrow> length s \<noteq> 8) \<and> js_truthy (v_timestamp v) \<longrightarrow>
       (\<forall>iso. date_toISOString ev (v_timestamp v) = Inr iso \<longrightarrow>
          (\<exists>it. fetchVideoMeta ev videoId = Inr it \<and> release_date it = JStr iso)) \<and>
       (\<forall>e. date_toISOString ev (v_timestamp v) = Inl e \<longrightarrow> fetchVideoMeta ev videoId = Inl e)) \<and>
    ((\<forall>s. v_upload_date v = JStr s \<longrightarrow> length s \<noteq> 8) \<and> \<not> js_truthy (v_timestamp v) \<longrightarrow>
       (\<exists>it. fetchVideoMeta ev videoId = Inr it \<and> release_date it = JNull))"
proof -
  have not8: "parseUploadDate (v_upload_date v) = JNull"
    if "\<forall>s. v_upload_date v = JStr s \<longrightarrow> length s \<noteq> 8"
    using that by (cases "v_upload_date v") (simp_all add: parseUploadDate_def)
  have a: "\<exists>it. fetchVideoMeta ev videoId = Inr it \<and>
             release_date it = JStr (take 4 s @ ''-'' @ take 2 (drop 4 s) @ ''-'' @ take 2 (drop 6 s))"
    if "v_upload_date v = JStr s" and "length s = 8" for s
    using that assms
    by (simp add: fetchVideoMeta_def uploadDate_of_def parseUploadDate_def Let_def)
  have b: "\<exists>it. fetchVideoMeta ev videoId = Inr it \<and> release_date it = JStr iso"
    if "\<forall>s. v_upload_date v = JStr s \<longrightarrow> length s \<noteq> 8" and "js_truthy (v_timestamp v)"
      and "date_toISOString ev (v_timestamp v) = Inr iso" for iso
    using that(2,3) assms not8 [OF that(1)]
    by (simp add: fetchVideoMeta_def uploadDate_of_def Let_def)
  have c: "fetchVideoMeta ev videoId = Inl e"
    if "\<forall>s. v_upload_date v = JStr s \<longrightarrow> length s \<noteq> 8" and "js_truthy (v_timestamp v)"
      and "date_toISOString ev (v_timestamp v) = Inl e" for e
    using that(2,3) assms not8 [OF that(1)]
    by (simp add: fetchVideoMeta_def uploadDate_of_def Let_def)
  have d: "\<exists>it. fetchVideoMeta ev videoId = Inr it \<and> release_date it = JNull"
    if "\<forall>s. v_upload_date v = JStr s \<longrightarrow> length s \<noteq> 8" and "\<not> js_truthy (v_timestamp v)"
    using that(2) assms not8 [OF that(1)]
    by (simp add: fetchVideoMeta_def uploadDate_of_def Let_def)
  from a b c d show ?thesis by blast
qed

theorem release_date_normalized_witness:
  "video_json example_env (JStr ''a'') = Inr example_video \<and>
   v_upload_date example_video = JStr ''20240131'' \<and> length ''20240131'' = 8 \<and>
   (\<exists>it. fetchVideoMeta example_env (JStr ''a'') = Inr it \<and> release_date it = JStr ''2024-01-31'')"
proof -
  have h: "video_json example_env (JStr ''a'') = Inr example_video"
    by (simp add: example_env_def)
  have u: "v_upload_date example_video = JStr ''20240131''"
    by (simp add: example_video_def)
  have l: "length ''20240131'' = 8" by simp
  from release_date_normalized [OF h]
  have "v_upload_date example_video = JStr ''20240131'' \<and> length ''20240131'' = 8 \<longrightarrow>
       (\<exists>it. fetchVideoMeta example_env (JStr ''a'') = Inr it \<and>
             release_date it = JStr (take 4 ''20240131'' @ ''-'' @ take 2 (drop 4 ''20240131'')
                                      @ ''-'' @ take 2 (drop 6 ''20240131'')))"
    by blast
  with h u l show ?thesis by simp
qed

text \<open>
  The claim as stated fails twice: eight characters that are not digits are split all the
  same, and a numeric timestamp that is present but 0 gives \<open>null\<close>.
\<close>

theorem release_date_counterexamples:
  "uploadDate_of example_env odd_date_video = Inr (JStr ''tomo-rr-ow'') \<and>
   v_timestamp epoch_video = JNum (Finite False 0 0) \<and>
   uploadDate_of example_env epoch_video = Inr JNull"
  by (simp add: uploadDate_of_def parseUploadDate_def odd_date_video_def epoch_video_def
        example_video_def Let_def)

subsection \<open>Invariants of a job\<close>

lemma fold_progress_take_aux:
  "xs = map TProgress (map (call_of ev tot) (enumerate 0 ids)) \<Longrightarrow> n \<le> length ids \<Longrightarrow>
   fold turn_job (take n xs) j = (if n = 0 then j else j \<lparr> completed := int n, total := tot \<rparr>)"
proof (induction n)
  case 0
  show ?case by simp
next
  case (Suc n)
  then have n: "n < length ids" by simp
  have step: "take (Suc n) xs = take n xs @ [TProgress (call_of ev tot (n, ids ! n))]"
    using n by (simp add: Suc.prems(1) take_Suc_conv_app_nth nth_enumerate_eq)
  have ih: "fold turn_job (take n xs) j =
              (if n = 0 then j else j \<lparr> completed := int n, total := tot \<rparr>)"
    using Suc.IH Suc.prems(1) n by simp
  show ?case
    by (simp add: step ih call_of_def add.commute)
qed

lemma fold_progress_take:
  "n \<le> length ids \<Longrightarrow>
   fold turn_job (take n (map TProgress (map (call_of ev tot) (enumerate 0 ids)))) j =
     (if n = 0 then j else j \<lparr> completed := int n, total := tot \<rparr>)"
  by (rule fold_progress_take_aux [OF refl])

lemma job_after_turns:
  assumes "status j0 = Running" and "completed j0 = 0" and "0 \<le> total j0" and "results j0 = []"
  shows "0 \<le> completed (fold turn_job (take n (driver_turns ev mx)) j0) \<and>
    completed (fold turn_job (take n (driver_turns ev mx)) j0)
      \<le> total (fold turn_job (take n (driver_turns ev mx)) j0) \<and>
    (status (fold turn_job (take n (driver_turns ev mx)) j0) \<noteq> Running \<longrightarrow>
       int (length (results (fold turn_job (take n (driver_turns ev mx)) j0)))
         = completed (fold turn_job (take n (driver_turns ev mx)) j0)) \<and>
    (status (fold turn_job (take n (driver_turns ev mx)) j0) = Running
       \<longleftrightarrow> n < length (driver_turns ev mx))"
proof (cases "listVideoIds ev (number_of_int mx)")
  case (Inl e)
  then have ts: "driver_turns ev mx = [TError e]" by (rule driver_turns_fail)
  show ?thesis using assms by (cases n) (simp_all add: ts)
next
  case (Inr ids)
  note ts = driver_turns_ok [OF Inr]
  show ?thesis
  proof (cases "n \<le> length ids")
    case True
    then have "fold turn_job (take n (driver_turns ev mx)) j0 =
        (if n = 0 then j0 else j0 \<lparr> completed := int n, total := int (length ids) \<rparr>)"
      using fold_progress_take [OF True, of ev "int (length ids)" j0] by (simp add: ts)
    then show ?thesis using assms True by (auto simp: ts)
  next
    case False
    then show ?thesis by (simp add: ts)
  qed
qed

text \<open>
  C3. In every state a job can reach, whatever requests were served between the turns of
  its function: \<open>0 \<le> completed \<le> total\<close>; once the status is not \<open>running\<close>, \<open>results\<close> has
  \<open>completed\<close> entries; the status is \<open>running\<close> exactly as long as the function has a turn
  left to run, and it has finitely many; and once the status is not \<open>running\<close> it is the
  same in every later state. So the job leaves \<open>running\<close> once, for \<open>done\<close> or \<open>error\<close>, and
  never comes back.
\<close>

theorem job_invariants:
  assumes "url \<noteq> []"
  shows "\<exists>j. youtubeJobs (snd (run_job ev jobId now (JStr url) mv sched w)) jobId = Some j \<and>
     0 \<le> completed j \<and> completed j \<le> total j \<and>
     (status j \<noteq> Running \<longrightarrow> int (length (results j)) = completed j) \<and>
     (status j = Running \<longleftrightarrow> resumes sched < length (driver_turns ev (clampInt mv 1 100 10))) \<and>
     (\<forall>more. \<exists>j'. youtubeJobs (snd (run_job ev jobId now (JStr url) mv (sched @ more) w)) jobId
                     = Some j' \<and>
                   (status j \<noteq> Running \<longrightarrow> status j' = status j \<and> status j' \<noteq> Running))"
proof -
  let ?mx = "clampInt mv 1 100 10"
  let ?ts = "driver_turns ev ?mx"
  let ?j0 = "\<lparr> status = Running, total = ?mx, completed = 0, results = [], createdAt = now,
               job_error = None, channelUrl = url, maxVideos = ?mx \<rparr>"
  have after: "youtubeJobs (snd (run_job ev jobId now (JStr url) mv s w)) jobId
                 = Some (fold turn_job (take (resumes s) ?ts) ?j0)" for s
    by (simp add: run_job_created [OF assms] run_jobs)
  have inv: "0 \<le> completed (fold turn_job (take n ?ts) ?j0) \<and>
    completed (fold turn_job (take n ?ts) ?j0) \<le> total (fold turn_job (take n ?ts) ?j0) \<and>
    (status (fold turn_job (take n ?ts) ?j0) \<noteq> Running \<longrightarrow>
       int (length (results (fold turn_job (take n ?ts) ?j0)))
         = completed (fold turn_job (take n ?ts) ?j0)) \<and>
    (status (fold turn_job (take n ?ts) ?j0) = Running \<longleftrightarrow> n < length ?ts)" for n
    using clampInt_range [of mv] by (intro job_after_turns) simp_all
  have later: "fold turn_job (take (resumes (sched @ more)) ?ts) ?j0
                 = fold turn_job (take (resumes sched) ?ts) ?j0"
    if "status (fold turn_job (take (resumes sched) ?ts) ?j0) \<noteq> Running" for more
  proof -
    from that inv [of "resumes sched"] have "length ?ts \<le> resumes sched" by simp
    then show ?thesis by (simp add: resumes_def)
  qed
  have ext: "\<forall>more. \<exists>j'. youtubeJobs (snd (run_job ev jobId now (JStr url) mv (sched @ more) w)) jobId
                     = Some j' \<and>
                   (status (fold turn_job (take (resumes sched) ?ts) ?j0) \<noteq> Running \<longrightarrow>
                      status j' = status (fold turn_job (take (resumes sched) ?ts) ?j0) \<and>
                      status j' \<noteq> Running)"
  proof
    fix more
    show "\<exists>j'. youtubeJobs (snd (run_job ev jobId now (JStr url) mv (sched @ more) w)) jobId
                     = Some j' \<and>
                   (status (fold turn_job (take (resumes sched) ?ts) ?j0) \<noteq> Running \<longrightarrow>
                      status j' = status (fold turn_job (take (resumes sched) ?ts) ?j0) \<and>
                      status j' \<noteq> Running)"
      using after [of "sched @ more"] later [of more] by auto
  qed
  from after [of sched] inv [of "resumes sched"] ext show ?thesis by blast
qed

theorem job_invariants_witness:
  "\<exists>j. youtubeJobs (snd (run_job example_env ''j1'' ''t0'' (JStr ''u'') (JNum (Finite False 3 0))
            [Resume, GetStream 0, Resume] empty_world)) ''j1'' = Some j \<and>
       0 \<le> completed j \<and> completed j \<le> total j \<and> status j = Running"
proof -
  have h0: "''u'' \<noteq> []" by simp
  have ts: "length (driver_turns example_env (clampInt (JNum (Finite False 3 0)) 1 100 10)) = 4"
    using driver_turns_ok [OF example_ids] by (simp add: clampInt_3)
  have r: "resumes [Resume, GetStream 0, Resume] = 2" by (simp add: resumes_def)
  from job_invariants [OF h0, of example_env "''j1''" "''t0''" "JNum (Finite False 3 0)"
      "[Resume, GetStream 0, Resume]" empty_world]
  show ?thesis unfolding ts r by auto
qed

subsection \<open>What a subscriber receives\<close>

lemma fold_sseSend_sent:
  "distinct s \<Longrightarrow>
   sent (fold (\<lambda>res. sseSend res ev d) s w) r =
     (if r \<in> set s \<and> \<not> ended w r then sent w r @ [(ev, d)] else sent w r)"
proof (induction s arbitrary: w)
  case Nil
  show ?case by simp
next
  case (Cons a s)
  have e: "ended (sseSend a ev d w) = ended w" by (simp add: sseSend_def)
  have "sent (fold (\<lambda>res. sseSend res ev d) s (sseSend a ev d w)) r =
     (if r \<in> set s \<and> \<not> ended w r then sent (sseSend a ev d w) r @ [(ev, d)]
      else sent (sseSend a ev d w) r)"
    using Cons.IH [of "sseSend a ev d w"] Cons.prems by (simp add: e)
  moreover have "sent (sseSend a ev d w) r =
     (if a = r \<and> \<not> ended w r then sent w r @ [(ev, d)] else sent w r)"
    by (auto simp: sseSend_def)
  ultimately show ?case using Cons.prems by auto
qed

lemma broadcast_streams [simp]: "youtubeStreams (broadcast jobId ev d w) = youtubeStreams w"
  by (simp add: broadcast_def split: option.splits)

lemma broadcast_ended [simp]: "ended (broadcast jobId ev d w) = ended w"
  by (simp add: broadcast_def split: option.splits)

lemma broadcast_attached:
  "attached jobId r w \<Longrightarrow> sent (broadcast jobId ev d w) r = sent w r @ [(ev, d)]"
  by (auto simp: attached_def broadcast_def fold_sseSend_sent split: option.splits)

lemma broadcast_unseen:
  "unseen jobId r w \<Longrightarrow> sent (broadcast jobId ev d w) r = sent w r"
  by (auto simp: unseen_def broadcast_def fold_sseSend_sent split: option.splits)

lemma closeStreams_sent [simp]: "sent (closeStreams jobId w) = sent w"
  by (simp add: closeStreams_def split: option.splits)

lemma closeStreams_streams [simp]:
  "youtubeStreams (closeStreams jobId w) = (youtubeStreams w)(jobId := None)"
  by (auto simp: closeStreams_def split: option.splits)

lemma closeStreams_ended:
  "ended (closeStreams jobId w) r \<longleftrightarrow>
     ended w r \<or> (case youtubeStreams w jobId of None \<Rightarrow> False | Some s \<Rightarrow> r \<in> set s)"
  by (simp add: closeStreams_def fold_res_end_ended split: option.splits)

lemma attached_jobs_update [simp]:
  "attached jobId r (w \<lparr> youtubeJobs := js \<rparr>) = attached jobId r w"
  by (simp add: attached_def)

lemma unseen_jobs_update [simp]:
  "unseen jobId r (w \<lparr> youtubeJobs := js \<rparr>) = unseen jobId r w"
  by (simp add: unseen_def)

lemma attached_broadcast: "attached jobId r w \<Longrightarrow> attached jobId r (broadcast jobId ev d w)"
  by (simp add: attached_def)

lemma unseen_broadcast: "unseen jobId r w \<Longrightarrow> unseen jobId r (broadcast jobId ev d w)"
  using broadcast_unseen [of jobId r w ev d] by (simp add: unseen_def)

lemma unseen_closeStreams: "unseen jobId r w \<Longrightarrow> unseen jobId r (closeStreams jobId w)"
  by (auto simp: unseen_def closeStreams_ended split: option.splits)

lemma run_turn_attached_sent:
  assumes "youtubeJobs w jobId = Some j" and "attached jobId r w"
  shows "sent (run_turn jobId t w) r = sent w r @ [turn_event jobId t]"
proof (cases t)
  case (TProgress p)
  then show ?thesis
    using assms by (simp add: onProgress_def broadcast_attached)
next
  case (TDone tot rs)
  then show ?thesis
    using assms by (simp add: on_done_def broadcast_attached)
next
  case (TError e)
  then show ?thesis
    using assms by (auto simp: on_error_def broadcast_attached)
qed

lemma run_turn_attached_keep:
  assumes "youtubeJobs w jobId = Some j" and "attached jobId r w"
  shows "attached jobId r (run_turn jobId (TProgress p) w)"
  using assms by (simp add: onProgress_def attached_broadcast)

lemma run_turn_unseen: "unseen jobId r w \<Longrightarrow> unseen jobId r (run_turn jobId t w)"
  by (cases t)
     (auto simp: onProgress_def on_done_def on_error_def
           intro!: unseen_broadcast unseen_closeStreams split: option.splits)

lemma sseSend_other:
  "r' \<noteq> r \<Longrightarrow> sent (sseSend r' ev d w) r = sent w r"
  by (simp add: sseSend_def)

lemma sseSend_streams [simp]: "youtubeStreams (sseSend r' ev d w) = youtubeStreams w"
  by (simp add: sseSend_def)

lemma sseSend_ended [simp]: "ended (sseSend r' ev d w) = ended w"
  by (simp add: sseSend_def)

lemma get_stream_other_sent:
  "r' \<noteq> r \<Longrightarrow> sent (get_stream jobId r' w) r = sent w r"
  by (simp add: get_stream_def Let_def sseSend_other attachStream_def split: option.splits)

lemma get_stream_streams:
  "youtubeStreams (get_stream jobId r' w) = youtubeStreams (attachStream jobId r' w)"
  by (simp add: get_stream_def Let_def split: option.splits)

lemma get_stream_ended [simp]: "ended (get_stream jobId r' w) = ended w"
  by (simp add: get_stream_def Let_def attachStream_def split: option.splits)

lemma get_stream_other_attached:
  "attached jobId r w \<Longrightarrow> attached jobId r (get_stream jobId r' w)"
  by (auto simp: attached_def get_stream_streams attachStream_def Let_def split: option.splits)

lemma get_stream_other_unseen:
  "r' \<noteq> r \<Longrightarrow> unseen jobId r w \<Longrightarrow> unseen jobId r (get_stream jobId r' w)"
  by (auto simp: unseen_def get_stream_streams get_stream_other_sent attachStream_def Let_def
           split: option.splits)

lemma on_close_sent [simp]: "sent (on_close jobId r' w) = sent w"
  by (simp add: on_close_def split: option.splits)

lemma on_close_ended [simp]: "ended (on_close jobId r' w) = ended w"
  by (simp add: on_close_def split: option.splits)

lemma on_close_other_attached:
  "r' \<noteq> r \<Longrightarrow> attached jobId r w \<Longrightarrow> attached jobId r (on_close jobId r' w)"
  by (auto simp: attached_def on_close_def distinct_removeAll split: option.splits)

lemma on_close_unseen:
  "unseen jobId r w \<Longrightarrow> unseen jobId r (on_close jobId r' w)"
  by (auto simp: unseen_def on_close_def distinct_removeAll split: option.splits)

lemma get_stream_self:
  assumes "youtubeJobs w jobId = Some j" and "unseen jobId r w"
  shows "sent (get_stream jobId r w) r = replay jobId j" and "attached jobId r (get_stream jobId r w)"
proof -
  have a: "sent (attachStream jobId r w) r = []" "\<not> ended (attachStream jobId r w) r"
    using assms(2) by (simp_all add: unseen_def attachStream_def Let_def)
  show "sent (get_stream jobId r w) r = replay jobId j"
    using assms(1) a by (simp add: get_stream_def Let_def sseSend_def replay_def)
  show "attached jobId r (get_stream jobId r w)"
    using assms(2)
    by (auto simp: attached_def unseen_def get_stream_streams attachStream_def Let_def
             split: option.splits)
qed

lemma turns_shape_tl: "turns_shape (t # ts) \<Longrightarrow> turns_shape ts"
  by (cases ts; cases t) simp_all

lemma turns_shape_drop: "turns_shape ts \<Longrightarrow> turns_shape (drop n ts)"
proof (induction n arbitrary: ts)
  case 0
  then show ?case by simp
next
  case (Suc n)
  then show ?case by (cases ts) (auto dest: turns_shape_tl)
qed

lemma turns_shape_progress: "turns_shape (map TProgress calls @ [t])"
proof (induction calls)
  case Nil
  show ?case by simp
next
  case (Cons c calls)
  then show ?case by (cases "map TProgress calls @ [t]") simp_all
qed

lemma turns_shape_driver: "turns_shape (driver_turns ev mx)"
  by (cases "listVideoIds ev (number_of_int mx)")
     (simp_all add: driver_turns_ok driver_turns_fail turns_shape_progress
        del: map_map)

lemma turns_shape_head: "turns_shape (t # t' # ts) \<Longrightarrow> \<exists>p. t = TProgress p"
  by (cases t) simp_all

lemma run_append: "run jobId (a @ b) st = run jobId b (run jobId a st)"
  by (induction a arbitrary: st) simp_all

lemma run_unseen:
  "unseen jobId r w \<Longrightarrow> leaves_alone sched r \<Longrightarrow>
   unseen jobId r (snd (run jobId sched (ts, w)))"
proof (induction sched arbitrary: ts w)
  case Nil
  then show ?case by simp
next
  case (Cons a sched)
  have la: "leaves_alone sched r" using Cons.prems(2) by (simp add: leaves_alone_def)
  show ?case
  proof (cases a)
    case Resume
    show ?thesis
    proof (cases ts)
      case Nil
      with Cons.IH [OF Cons.prems(1) la] Resume show ?thesis by simp
    next
      case (Cons t ts')
      with Cons.IH [OF run_turn_unseen [OF Cons.prems(1)] la] Resume show ?thesis by simp
    qed
  next
    case (GetStream r')
    then have "r' \<noteq> r" using Cons.prems(2) by (auto simp: leaves_alone_def)
    from Cons.IH [OF get_stream_other_unseen [OF this Cons.prems(1)] la] GetStream
    show ?thesis by simp
  next
    case (Close r')
    from Cons.IH [OF on_close_unseen [OF Cons.prems(1)] la] Close
    show ?thesis by simp
  qed
qed

lemma run_idle:
  "leaves_alone sched r \<Longrightarrow> sent (snd (run jobId sched ([], w))) r = sent w r"
proof (induction sched arbitrary: w)
  case Nil
  show ?case by simp
next
  case (Cons a sched)
  have la: "leaves_alone sched r" using Cons.prems by (simp add: leaves_alone_def)
  show ?case
  proof (cases a)
    case Resume
    with Cons.IH [OF la] show ?thesis by simp
  next
    case (GetStream r')
    then have "r' \<noteq> r" using Cons.prems by (auto simp: leaves_alone_def)
    with Cons.IH [OF la, of "get_stream jobId r' w"] GetStream show ?thesis
      by (simp add: get_stream_other_sent)
  next
    case (Close r')
    with Cons.IH [OF la, of "on_close jobId r' w"] show ?thesis by simp
  qed
qed

lemma run_attached:
  "youtubeJobs w jobId = Some j \<Longrightarrow> attached jobId r w \<Longrightarrow> turns_shape ts \<Longrightarrow>
   leaves_alone sched r \<Longrightarrow>
   sent (snd (run jobId sched (ts, w))) r
     = sent w r @ map (turn_event jobId) (take (resumes sched) ts)"
proof (induction sched arbitrary: ts w j)
  case Nil
  show ?case by (simp add: resumes_def)
next
  case (Cons a sched)
  have la: "leaves_alone sched r" using Cons.prems(4) by (simp add: leaves_alone_def)
  show ?case
  proof (cases a)
    case Resume
    show ?thesis
    proof (cases ts)
      case Nil
      with run_idle [OF la, of jobId w] Resume show ?thesis by (simp add: resumes_def)
    next
      case ts: (Cons t ts')
      have s: "sent (run_turn jobId t w) r = sent w r @ [turn_event jobId t]"
        using Cons.prems(1,2) by (rule run_turn_attached_sent)
      have j': "youtubeJobs (run_turn jobId t w) jobId = Some (turn_job t j)"
        using Cons.prems(1) by (simp add: run_turn_job)
      show ?thesis
      proof (cases ts')
        case Nil
        with run_idle [OF la, of jobId "run_turn jobId t w"] s ts Resume show ?thesis
          by (simp add: resumes_def)
      next
        case (Cons t' ts'')
        with Cons.prems(3) ts obtain p where p: "t = TProgress p"
          by (auto dest: turns_shape_head)
        have at: "attached jobId r (run_turn jobId t w)"
          unfolding p using Cons.prems(1,2) by (rule run_turn_attached_keep)
        have sh: "turns_shape ts'" using Cons.prems(3) ts by (auto dest: turns_shape_tl)
        from Cons.IH [OF j' at sh la] s ts Resume show ?thesis
          by (simp add: resumes_def)
      qed
    qed
  next
    case (GetStream r')
    then have ne: "r' \<noteq> r" using Cons.prems(4) by (auto simp: leaves_alone_def)
    have j': "youtubeJobs (get_stream jobId r' w) jobId = Some j"
      using Cons.prems(1) by simp
    from Cons.IH [OF j' get_stream_other_attached [OF Cons.prems(2)] Cons.prems(3) la]
      GetStream ne show ?thesis
      by (simp add: resumes_def get_stream_other_sent)
  next
    case (Close r')
    then have ne: "r' \<noteq> r" using Cons.prems(4) by (auto simp: leaves_alone_def)
    have j': "youtubeJobs (on_close jobId r' w) jobId = Some j"
      using Cons.prems(1) by simp
    from Cons.IH [OF j' on_close_other_attached [OF ne Cons.prems(2)] Cons.prems(3) la]
      Close show ?thesis
      by (simp add: resumes_def)
  qed
qed

lemma subscriber_log:
  assumes "url \<noteq> []" and "unseen jobId r w"
    and "leaves_alone before r" and "leaves_alone later r"
  shows "sent (snd (run_job ev jobId now (JStr url) mv (before @ GetStream r # later) w)) r =
           replay jobId (job_after ev now url mv (resumes before))
             @ map (turn_event jobId)
                 (take (resumes later)
                    (drop (resumes before) (driver_turns ev (clampInt mv 1 100 10))))"
proof -
  let ?ts = "driver_turns ev (clampInt mv 1 100 10)"
  let ?w0 = "w \<lparr> youtubeJobs := (youtubeJobs w)(jobId \<mapsto> initial_job now url mv) \<rparr>"
  let ?w1 = "broadcast jobId ''status'' Starting ?w0"
  let ?st = "run jobId before (?ts, ?w1)"
  have created: "run_job ev jobId now (JStr url) mv s w = run jobId s (?ts, ?w1)" for s
    by (simp add: run_job_created [OF assms(1)] initial_job_def)
  have u1: "unseen jobId r ?w1"
    using assms(2) by (intro unseen_broadcast) simp
  have j1: "youtubeJobs ?w1 jobId = Some (initial_job now url mv)" by simp
  have st: "?st = (drop (resumes before) ?ts, snd ?st)"
    using run_turns [of jobId before ?ts ?w1] by (metis prod.collapse)
  have u2: "unseen jobId r (snd ?st)"
    using u1 assms(3) by (rule run_unseen)
  have j2: "youtubeJobs (snd ?st) jobId = Some (job_after ev now url mv (resumes before))"
    using run_jobs [OF j1, of before ?ts] by (simp add: job_after_def)
  let ?w3 = "get_stream jobId r (snd ?st)"
  have j3: "youtubeJobs ?w3 jobId = Some (job_after ev now url mv (resumes before))"
    using j2 by simp
  have "run jobId (before @ GetStream r # later) (?ts, ?w1)
          = run jobId later (drop (resumes before) ?ts, ?w3)"
    by (subst run_append, subst st) simp
  moreover have "sent (snd (run jobId later (drop (resumes before) ?ts, ?w3))) r
      = sent ?w3 r @ map (turn_event jobId) (take (resumes later) (drop (resumes before) ?ts))"
    using j3 get_stream_self(2) [OF j2 u2] turns_shape_drop [OF turns_shape_driver] assms(4)
    by (rule run_attached)
  ultimately show ?thesis
    by (simp add: created get_stream_self(1) [OF j2 u2])
qed

lemma initial_job_after:
  "0 \<le> completed (job_after ev now url mv n) \<and>
   completed (job_after ev now url mv n) \<le> total (job_after ev now url mv n) \<and>
   (status (job_after ev now url mv n) \<noteq> Running \<longrightarrow>
      int (length (results (job_after ev now url mv n))) = completed (job_after ev now url mv n)) \<and>
   (status (job_after ev now url mv n) = Running
      \<longleftrightarrow> n < length (driver_turns ev (clampInt mv 1 100 10)))"
  unfolding job_after_def
  using clampInt_range [of mv] by (intro job_after_turns) (simp_all add: initial_job_def)

lemma driver_kinds:
  "\<exists>fin. (fin = ''done'' \<or> fin = ''error'') \<and>
     map (\<lambda>t. fst (turn_event jobId t)) (driver_turns ev mx) =
       replicate (length (driver_turns ev mx) - 1) ''progress'' @ [fin]"
proof (cases "listVideoIds ev (number_of_int mx)")
  case (Inl e)
  then show ?thesis by (simp add: driver_turns_fail)
next
  case (Inr ids)
  have "map (\<lambda>t. fst (turn_event jobId t)) (map TProgress calls) =
          replicate (length calls) ''progress''" for calls
    by (induction calls) simp_all
  then show ?thesis by (simp add: driver_turns_ok [OF Inr] del: map_map)
qed

lemma dropWhile_progress:
  "fin \<noteq> ''progress'' \<Longrightarrow>
   dropWhile (\<lambda>k. k = ''progress'') (replicate n ''progress'' @ [fin]) = [fin]"
  by (induction n) simp_all

lemma pattern_live:
  "fin = ''done'' \<or> fin = ''error'' \<Longrightarrow>
   stream_pattern (''status'' # replicate n ''progress'' @ [fin])"
proof -
  assume fin: "fin = ''done'' \<or> fin = ''error''"
  then have 1: "dropWhile (\<lambda>k. k = ''status'') (replicate n ''progress'' @ [fin])
                  = replicate n ''progress'' @ [fin]"
    by (cases n) auto
  from fin have 2: "dropWhile (\<lambda>k. k = ''progress'') (replicate n ''progress'' @ [fin]) = [fin]"
    by (intro dropWhile_progress) auto
  show ?thesis using fin by (simp add: stream_pattern_def 1 2)
qed

lemma observed_log:
  assumes "url \<noteq> []" and "unseen jobId r w"
    and "leaves_alone before r" and "leaves_alone later r"
    and "length (driver_turns ev (clampInt mv 1 100 10)) \<le> resumes before + resumes later"
  shows "observed ev jobId now url mv (before @ GetStream r # later) w r =
           replay jobId (job_after ev now url mv (resumes before))
             @ map (turn_event jobId)
                 (drop (resumes before) (driver_turns ev (clampInt mv 1 100 10)))"
  using assms(5) by (simp add: observed_def subscriber_log [OF assms(1-4)])

lemma observed_pattern:
  assumes "url \<noteq> []" and "unseen jobId r w"
    and "leaves_alone before r" and "leaves_alone later r"
    and "length (driver_turns ev (clampInt mv 1 100 10)) \<le> resumes before + resumes later"
  shows "stream_pattern (map fst (observed ev jobId now url mv (before @ GetStream r # later) w r))"
proof -
  let ?ts = "driver_turns ev (clampInt mv 1 100 10)"
  let ?c = "resumes before"
  let ?j = "job_after ev now url mv ?c"
  note log = observed_log [OF assms, of now]
  from driver_kinds [of jobId ev "clampInt mv 1 100 10"] obtain fin where
    fin: "fin = ''done'' \<or> fin = ''error''" and
    kinds: "map (\<lambda>t. fst (turn_event jobId t)) ?ts = replicate (length ?ts - 1) ''progress'' @ [fin]"
    by blast
  show ?thesis
  proof (cases "?c < length ?ts")
    case True
    then have run: "status ?j = Running" using initial_job_after [of ev now url mv ?c] by simp
    have "map (\<lambda>t. fst (turn_event jobId t)) (drop ?c ?ts)
            = replicate (length ?ts - 1 - ?c) ''progress'' @ [fin]"
      using True by (simp add: drop_map [symmetric] kinds)
    then have "map fst (observed ev jobId now url mv (before @ GetStream r # later) w r)
            = ''status'' # replicate (length ?ts - 1 - ?c) ''progress'' @ [fin]"
      by (simp add: log replay_def run o_def)
    then show ?thesis using pattern_live [OF fin] by simp
  next
    case False
    then have nr: "status ?j \<noteq> Running" using initial_job_after [of ev now url mv ?c] by simp
    then have "status ?j = Done \<or> status ?j = Error" by (cases "status ?j") simp_all
    then show ?thesis
      using False by (auto simp: log replay_def stream_pattern_def)
  qed
qed

lemma progress_counts_append:
  "progress_counts (a @ b) = progress_counts a @ progress_counts b"
  by (induction a rule: progress_counts.induct) simp_all

lemma progress_counts_replay: "progress_counts (replay jobId j) = []"
  by (simp add: replay_def)

lemma progress_counts_turns:
  "progress_counts (map (turn_event jobId) (map TProgress calls)) = map p_completed calls"
  by (induction calls) simp_all

lemma progress_counts_final:
  "progress_counts (map (turn_event jobId) (drop n [TDone tot rs])) = []"
  by (cases n) simp_all

lemma counts_calls:
  "map p_completed (map (call_of ev tot) (enumerate i ids)) =
     map (\<lambda>k. int k + 1) [i..<i + length ids]"
  by (rule nth_equalityI) (simp_all add: nth_enumerate_eq call_of_def)

lemma observed_counts:
  assumes "url \<noteq> []" and "unseen jobId r w"
    and "leaves_alone before r" and "leaves_alone later r"
    and "length (driver_turns ev (clampInt mv 1 100 10)) \<le> resumes before + resumes later"
    and "listVideoIds ev (number_of_int (clampInt mv 1 100 10)) = Inr ids"
  shows "progress_counts (observed ev jobId now url mv (before @ GetStream r # later) w r) =
           map (\<lambda>k. int k + 1) [resumes before..<length ids]"
proof -
  let ?calls = "map (call_of ev (int (length ids))) (enumerate 0 ids)"
  have ts: "driver_turns ev (clampInt mv 1 100 10) =
      map TProgress ?calls @ [TDone (int (length ids)) (map (pushed_record ev) ids)]"
    using assms(6) by (rule driver_turns_ok)
  have c1: "map p_completed ?calls = map (\<lambda>k. int k + 1) [0..<length ids]"
    using counts_calls [of ev "int (length ids)" 0 ids] by simp
  have "progress_counts (observed ev jobId now url mv (before @ GetStream r # later) w r) =
          map p_completed (drop (resumes before) ?calls)"
    unfolding observed_log [OF assms(1-5)] ts
    by (simp add: progress_counts_append progress_counts_replay progress_counts_final
          drop_map progress_counts_turns del: map_map)
  also have "\<dots> = drop (resumes before) (map p_completed ?calls)"
    by (simp only: drop_map)
  also have "\<dots> = drop (resumes before) (map (\<lambda>k. int k + 1) [0..<length ids])"
    by (simp only: c1)
  also have "\<dots> = map (\<lambda>k. int k + 1) [resumes before..<length ids]"
    by (simp add: drop_map)
  finally show ?thesis .
qed

lemma observed_late:
  assumes "url \<noteq> []" and "unseen jobId r w"
    and "leaves_alone before r" and "leaves_alone later r"
    and "length (driver_turns ev (clampInt mv 1 100 10)) \<le> resumes before"
  shows "\<exists>st c t term. observed ev jobId now url mv (before @ GetStream r # later) w r =
           [(''status'', Snapshot st c t), term] \<and> st \<noteq> Running \<and>
           (fst term = ''done'' \<or> fst term = ''error'')"
proof -
  let ?j = "job_after ev now url mv (resumes before)"
  have le: "length (driver_turns ev (clampInt mv 1 100 10)) \<le> resumes before + resumes later"
    using assms(5) by simp
  have nr: "status ?j \<noteq> Running"
    using assms(5) initial_job_after [of ev now url mv "resumes before"] by simp
  then have "status ?j = Done \<or> status ?j = Error" by (cases "status ?j") simp_all
  then show ?thesis
    using assms(5) nr by (auto simp: observed_log [OF assms(1-4) le] replay_def)
qed

text \<open>
  C6, as the code has it. A subscriber that attaches to an existing job with a fresh
  response, and stays until the job's function has finished, receives: first the
  replayed \<open>status\<close> snapshot of the job as it is at that moment (and, if the job is already
  terminal, its terminal event); then every event published afterwards, in order, namely
  one \<open>progress\<close> event per unit still to complete and one terminal event. The kinds
  follow \<open>status* progress* (done | error)\<close>. When the enumeration yielded \<open>N\<close> identifiers
  and \<open>c\<close> units were complete at the attach, the progress events carry the \<open>completed\<close>
  values \<open>c + 1, c + 2, \<dots>, N\<close> (so \<open>1, 2, 3, \<dots>\<close> only for a subscriber attached before the
  first unit completes). A subscriber attaching after the terminal state receives the
  snapshot and exactly one terminal event, and no progress event.
\<close>

theorem subscriber_event_sequence:
  assumes "url \<noteq> []" and "unseen jobId r w"
    and "leaves_alone before r" and "leaves_alone later r"
    and "length (driver_turns ev (clampInt mv 1 100 10)) \<le> resumes before + resumes later"
  shows
   "observed ev jobId now url mv (before @ GetStream r # later) w r =
      replay jobId (job_after ev now url mv (resumes before))
        @ map (turn_event jobId) (drop (resumes before) (driver_turns ev (clampInt mv 1 100 10))) \<and>
    stream_pattern (map fst (observed ev jobId now url mv (before @ GetStream r # later) w r)) \<and>
    (\<forall>ids. listVideoIds ev (number_of_int (clampInt mv 1 100 10)) = Inr ids \<longrightarrow>
       progress_counts (observed ev jobId now url mv (before @ GetStream r # later) w r) =
         map (\<lambda>k. int k + 1) [resumes before..<length ids]) \<and>
    (length (driver_turns ev (clampInt mv 1 100 10)) \<le> resumes before \<longrightarrow>
       progress_counts (observed ev jobId now url mv (before @ GetStream r # later) w r) = [] \<and>
       (\<exists>st c t term. observed ev jobId now url mv (before @ GetStream r # later) w r =
           [(''status'', Snapshot st c t), term] \<and> st \<noteq> Running \<and>
           (fst term = ''done'' \<or> fst term = ''error'')))"
proof -
  have late: "progress_counts (observed ev jobId now url mv (before @ GetStream r # later) w r) = [] \<and>
       (\<exists>st c t term. observed ev jobId now url mv (before @ GetStream r # later) w r =
           [(''status'', Snapshot st c t), term] \<and> st \<noteq> Running \<and>
           (fst term = ''done'' \<or> fst term = ''error''))"
    if le: "length (driver_turns ev (clampInt mv 1 100 10)) \<le> resumes before"
  proof -
    have "progress_counts (observed ev jobId now url mv (before @ GetStream r # later) w r) = []"
      using le
      by (simp add: observed_log [OF assms] progress_counts_append progress_counts_replay)
    with observed_late [OF assms(1-4) le, of now] show ?thesis by blast
  qed
  from observed_log [OF assms, of now] observed_pattern [OF assms, of now]
    observed_counts [OF assms, of _ now] late
  show ?thesis by blast
qed

lemma example_unseen: "unseen ''j1'' 0 empty_world"
  by (simp add: unseen_def empty_world_def)

lemma example_turns:
  "length (driver_turns example_env (clampInt (JNum (Finite False 3 0)) 1 100 10)) = 4"
  using driver_turns_ok [OF example_ids] by (simp add: clampInt_3)

theorem subscriber_event_sequence_witness:
  "unseen ''j1'' 0 empty_world \<and> leaves_alone [Resume] 0 \<and> leaves_alone [Resume, Resume, Resume] 0 \<and>
   length (driver_turns example_env (clampInt (JNum (Finite False 3 0)) 1 100 10))
     \<le> resumes [Resume] + resumes [Resume, Resume, Resume] \<and>
   stream_pattern (map fst (observed example_env ''j1'' ''t0'' ''u'' (JNum (Finite False 3 0))
      ([Resume] @ GetStream 0 # [Resume, Resume, Resume]) empty_world 0)) \<and>
   progress_counts (observed example_env ''j1'' ''t0'' ''u'' (JNum (Finite False 3 0))
      ([Resume] @ GetStream 0 # [Resume, Resume, Resume]) empty_world 0) = [2, 3]"
proof -
  have h0: "''u'' \<noteq> []" by simp
  have h3: "leaves_alone [Resume] 0" by (simp add: leaves_alone_def)
  have h4: "leaves_alone [Resume, Resume, Resume] 0" by (simp add: leaves_alone_def)
  have h5: "length (driver_turns example_env (clampInt (JNum (Finite False 3 0)) 1 100 10))
     \<le> resumes [Resume] + resumes [Resume, Resume, Resume]"
    by (simp add: example_turns resumes_def)
  have ids: "listVideoIds example_env (number_of_int (clampInt (JNum (Finite False 3 0)) 1 100 10))
     = Inr [JStr ''a'', JStr ''b'', JStr ''c'']"
    by (simp add: clampInt_3 example_ids)
  have r: "resumes [Resume] = 1" by (simp add: resumes_def)
  from subscriber_event_sequence [OF h0 example_unseen h3 h4 h5, of "''t0''"]
  have "stream_pattern (map fst (observed example_env ''j1'' ''t0'' ''u'' (JNum (Finite False 3 0))
      ([Resume] @ GetStream 0 # [Resume, Resume, Resume]) empty_world 0)) \<and>
    (\<forall>ids. listVideoIds example_env (number_of_int (clampInt (JNum (Finite False 3 0)) 1 100 10))
        = Inr ids \<longrightarrow>
       progress_counts (observed example_env ''j1'' ''t0'' ''u'' (JNum (Finite False 3 0))
         ([Resume] @ GetStream 0 # [Resume, Resume, Resume]) empty_world 0) =
         map (\<lambda>k. int k + 1) [resumes [Resume]..<length ids])"
    by blast
  with ids have "stream_pattern (map fst (observed example_env ''j1'' ''t0'' ''u'' (JNum (Finite False 3 0))
      ([Resume] @ GetStream 0 # [Resume, Resume, Resume]) empty_world 0)) \<and>
    progress_counts (observed example_env ''j1'' ''t0'' ''u'' (JNum (Finite False 3 0))
         ([Resume] @ GetStream 0 # [Resume, Resume, Resume]) empty_world 0) =
         map (\<lambda>k. int k + 1) [resumes [Resume]..<length [JStr ''a'', JStr ''b'', JStr ''c'']]"
    by blast
  moreover have "map (\<lambda>k. int k + 1) [resumes [Resume]..<length [JStr ''a'', JStr ''b'', JStr ''c'']]
      = [2, 3]"
    by (simp add: r upt_rec)
  ultimately show ?thesis using example_unseen h3 h4 h5 by simp
qed

text \<open>
  The claim as stated fails: a subscriber that attaches after the first unit has completed
  receives the progress counts 2 and 3, not 1, 2, 3.
\<close>

theorem late_subscriber_misses_first_progress:
  "progress_counts (observed example_env ''j1'' ''t0'' ''u'' (JNum (Finite False 3 0))
      [Resume, GetStream 0, Resume, Resume, Resume] empty_world 0) = [2, 3] \<and>
   progress_counts (observed example_env ''j1'' ''t0'' ''u'' (JNum (Finite False 3 0))
      [Resume, GetStream 0, Resume, Resume, Resume] empty_world 0) \<noteq> [1, 2, 3]"
proof -
  have h0: "''u'' \<noteq> []" by simp
  have h3: "leaves_alone [Resume] 0" by (simp add: leaves_alone_def)
  have h4: "leaves_alone [Resume, Resume, Resume] 0" by (simp add: leaves_alone_def)
  have h5: "length (driver_turns example_env (clampInt (JNum (Finite False 3 0)) 1 100 10))
     \<le> resumes [Resume] + resumes [Resume, Resume, Resume]"
    by (simp add: example_turns resumes_def)
  have ids: "listVideoIds example_env (number_of_int (clampInt (JNum (Finite False 3 0)) 1 100 10))
     = Inr [JStr ''a'', JStr ''b'', JStr ''c'']"
    by (simp add: clampInt_3 example_ids)
  have r: "resumes [Resume] = 1" by (simp add: resumes_def)
  have "progress_counts (observed example_env ''j1'' ''t0'' ''u'' (JNum (Finite False 3 0))
      ([Resume] @ GetStream 0 # [Resume, Resume, Resume]) empty_world 0) = [2, 3]"
    unfolding observed_counts [OF h0 example_unseen h3 h4 h5 ids]
    by (simp add: r upt_rec)
  then show ?thesis by simp
qed

subsection \<open>\<open>parseInt\<close> reads the integer prefix\<close>

lemma digit_not_white_space: "is_digit c \<Longrightarrow> \<not> is_white_space c"
  by (auto simp: is_digit_def is_white_space_def)

lemma sign_chars [simp]:
  "\<not> is_white_space CHR ''-''" "\<not> is_white_space CHR ''+''"
  "\<not> is_digit CHR ''-''" "\<not> is_digit CHR ''+''"
  by (simp_all add: is_white_space_def is_digit_def)

lemma digit_not_sign: "is_digit c \<Longrightarrow> c \<noteq> CHR ''-'' \<and> c \<noteq> CHR ''+''"
  by auto

lemma takeWhile_digits:
  "list_all is_digit ds \<Longrightarrow> rest = [] \<or> \<not> is_digit (hd rest) \<Longrightarrow>
   takeWhile is_digit (ds @ rest) = ds"
  by (cases rest) (auto simp: list_all_iff takeWhile_append2)

lemma parse_unsigned:
  assumes "ds \<noteq> []" and "list_all is_digit ds" and "rest = [] \<or> \<not> is_digit (hd rest)"
  shows "js_parseInt10 (ds @ rest) = Some (int (digits_value ds))"
proof -
  from assms(1,2) obtain d ds' where ds: "ds = d # ds'" and d: "is_digit d"
    by (cases ds) auto
  have S: "dropWhile is_white_space (ds @ rest) = ds @ rest"
    using d by (simp add: ds digit_not_white_space)
  have hd: "hd (ds @ rest) \<noteq> CHR ''-''" "hd (ds @ rest) \<noteq> CHR ''+''"
    using d by (auto simp: ds)
  show ?thesis
    using assms(1) hd by (simp add: js_parseInt10_def S Let_def takeWhile_digits [OF assms(2,3)])
qed

lemma parse_minus:
  assumes "ds \<noteq> []" and "list_all is_digit ds" and "rest = [] \<or> \<not> is_digit (hd rest)"
  shows "js_parseInt10 (CHR ''-'' # ds @ rest) = Some (- int (digits_value ds))"
  using assms(1)
  by (simp add: js_parseInt10_def Let_def takeWhile_digits [OF assms(2,3)])

lemma parse_plus:
  assumes "ds \<noteq> []" and "list_all is_digit ds" and "rest = [] \<or> \<not> is_digit (hd rest)"
  shows "js_parseInt10 (CHR ''+'' # ds @ rest) = Some (int (digits_value ds))"
  using assms(1)
  by (simp add: js_parseInt10_def Let_def takeWhile_digits [OF assms(2,3)])

lemma parse_skips_white_space:
  "list_all is_white_space ws \<Longrightarrow> js_parseInt10 (ws @ str) = js_parseInt10 str"
  by (simp add: js_parseInt10_def list_all_iff dropWhile_append2)

lemma leading_integer_parsed:
  assumes "has_leading_integer str m"
  shows "js_parseInt10 str = Some m"
proof -
  from assms obtain ws sg ds rest where
    str: "str = ws @ sg @ ds @ rest" and ws: "list_all is_white_space ws" and
    sg: "sg = [] \<or> sg = ''-'' \<or> sg = ''+''" and ds: "ds \<noteq> []" "list_all is_digit ds" and
    rest: "rest = [] \<or> \<not> is_digit (hd rest)" and
    m: "m = (if sg = ''-'' then - 1 else 1) * int (digits_value ds)"
    unfolding has_leading_integer_def by blast
  have "js_parseInt10 (sg @ ds @ rest) = Some m"
    using sg parse_unsigned [OF ds rest] parse_minus [OF ds rest] parse_plus [OF ds rest] m
    by auto
  then show ?thesis by (simp add: str parse_skips_white_space [OF ws])
qed

lemma parsed_leading_integer:
  assumes "js_parseInt10 str = Some m"
  shows "has_leading_integer str m"
proof -
  let ?ws = "takeWhile is_white_space str"
  let ?S = "dropWhile is_white_space str"
  let ?sg = "if ?S \<noteq> [] \<and> (hd ?S = CHR ''+'' \<or> hd ?S = CHR ''-'') then [hd ?S] else []"
  let ?S' = "if ?S \<noteq> [] \<and> (hd ?S = CHR ''+'' \<or> hd ?S = CHR ''-'') then tl ?S else ?S"
  let ?ds = "takeWhile is_digit ?S'"
  let ?rest = "dropWhile is_digit ?S'"
  have 1: "str = ?ws @ ?sg @ ?ds @ ?rest" by simp
  have 2: "list_all is_white_space ?ws" by (auto simp: list_all_iff dest: set_takeWhileD)
  have 3: "?sg = [] \<or> ?sg = ''-'' \<or> ?sg = ''+''" by auto
  have 4: "?ds \<noteq> []" using assms by (auto simp: js_parseInt10_def Let_def split: if_splits)
  have 5: "list_all is_digit ?ds" by (auto simp: list_all_iff dest: set_takeWhileD)
  have 6: "?rest = [] \<or> \<not> is_digit (hd ?rest)" using hd_dropWhile [of is_digit ?S'] by blast
  have 7: "m = (if ?sg = ''-'' then - 1 else 1) * int (digits_value ?ds)"
    using assms by (auto simp: js_parseInt10_def Let_def split: if_splits)
  show ?thesis
    unfolding has_leading_integer_def
    using 1 2 3 4 5 6 7 by blast
qed

lemma parse_iff_leading_integer:
  "js_parseInt10 str = Some m \<longleftrightarrow> has_leading_integer str m"
  using leading_integer_parsed parsed_leading_integer by blast

lemma clampInt_leading_integer:
  "has_leading_integer (js_ToString v) m \<Longrightarrow> \<bar>m\<bar> < 2 ^ 1024 - 2 ^ 970 \<Longrightarrow>
   clampInt v 1 100 10 = max 1 (min 100 m)"
  by (simp add: clampInt_def Number_isFinite_def leading_integer_parsed)

lemma clampInt_overflow:
  "has_leading_integer (js_ToString v) m \<Longrightarrow> 2 ^ 1024 - 2 ^ 970 \<le> \<bar>m\<bar> \<Longrightarrow>
   clampInt v 1 100 10 = 10"
  by (simp add: clampInt_def Number_isFinite_def leading_integer_parsed)

lemma clampInt_no_integer:
  "\<forall>m. \<not> has_leading_integer (js_ToString v) m \<Longrightarrow> clampInt v 1 100 10 = 10"
proof -
  assume "\<forall>m. \<not> has_leading_integer (js_ToString v) m"
  then have "js_parseInt10 (js_ToString v) = None"
    using parsed_leading_integer by (cases "js_parseInt10 (js_ToString v)") auto
  then show ?thesis by (simp add: clampInt_def Number_isFinite_def)
qed


lemma example_7_9: "clampInt (JNum (Finite False 79 (- 1))) 1 100 10 = 7"
  by code_simp

lemma parse_5abc: "js_parseInt10 ''5abc'' = Some 5"
  by code_simp

lemma example_5abc: "clampInt (JStr ''5abc'') 1 100 10 = 5"
  by (simp add: clampInt_def parse_5abc Number_isFinite_def)

lemma parse_minus_3: "js_parseInt10 ''-3'' = Some (- 3)"
  by code_simp

lemma example_minus_3: "clampInt (JStr ''-3'') 1 100 10 = 1"
  by (simp add: clampInt_def parse_minus_3 Number_isFinite_def)

lemma parse_abc: "js_parseInt10 ''abc'' = None"
  by code_simp

lemma example_abc: "clampInt (JStr ''abc'') 1 100 10 = 10"
  by (simp add: clampInt_def parse_abc Number_isFinite_def)

lemma digits_5: "dec_digits 5 = ''5''"
  by code_simp

lemma digits_7: "dec_digits 7 = ''7''"
  by code_simp

lemma string_5e_7: "js_ToString (JNum (Finite False 5 (- 7))) = ''5e-7''"
  by (simp add: pos_toString_def exponent_part_def digits_5 digits_7 Let_def)

lemma parse_5e_7: "js_parseInt10 ''5e-7'' = Some 5"
  by code_simp

lemma example_5e_7: "clampInt (JNum (Finite False 5 (- 7))) 1 100 10 = 5"
  unfolding clampInt_def string_5e_7 parse_5e_7 by (simp add: Number_isFinite_def)

lemma foldl_zeros:
  "foldl (\<lambda>acc c. 10 * acc + digit_val c) a (replicate n CHR ''0'') = a * 10 ^ n"
  by (induction n arbitrary: a) (simp_all add: digit_val_def)

lemma digit_val_1: "digit_val CHR ''1'' = 1"
  by (simp add: digit_val_def)

lemma one_zeros_value: "digits_value (CHR ''1'' # replicate n CHR ''0'') = 10 ^ n"
  by (simp add: digits_value_def foldl_zeros digit_val_1)

lemma one_zeros_leading:
  "has_leading_integer (CHR ''1'' # replicate n CHR ''0'') (10 ^ n)"
proof -
  have "list_all is_digit (CHR ''1'' # replicate n CHR ''0'')"
    by (simp add: list_all_iff is_digit_def)
  then have "has_leading_integer ([] @ [] @ (CHR ''1'' # replicate n CHR ''0'') @ []) (10 ^ n)"
    unfolding has_leading_integer_def
    by (intro exI [of _ "[]"] exI [of _ "CHR ''1'' # replicate n CHR ''0''"])
       (simp add: one_zeros_value)
  then show ?thesis by simp
qed

lemma example_huge: "clampInt (JStr (CHR ''1'' # replicate 309 CHR ''0'')) 1 100 10 = 10"
  using clampInt_overflow [of "JStr (CHR ''1'' # replicate 309 CHR ''0'')" "10 ^ 309"]
    one_zeros_leading [of 309]
  by simp

text \<open>
  C10, as the code has it. \<open>clampInt(n, 1, 100, 10)\<close> reads the integer prefix of the
  string form of its argument: when that form has a leading integer \<open>m\<close> and \<open>m\<close> is finite
  as a Number, the result is \<open>m\<close> clamped to \<open>[1, 100]\<close>: 7.9 yields 7, \<open>"5abc"\<close> yields 5,
  \<open>"-3"\<close> yields 1 and does not fall back. The result is the fallback 10 when there is no
  leading integer (\<open>undefined\<close>, \<open>""\<close>, \<open>"abc"\<close>, \<open>NaN\<close>) and also when the leading integer is
  too large to be a finite Number; every result other than 10 comes from a finite leading
  integer.
\<close>

theorem clampInt_reads_integer_prefix:
  "(\<forall>m. has_leading_integer (js_ToString v) m \<and> \<bar>m\<bar> < 2 ^ 1024 - 2 ^ 970 \<longrightarrow>
        clampInt v 1 100 10 = max 1 (min 100 m)) \<and>
   ((\<forall>m. \<not> has_leading_integer (js_ToString v) m) \<or>
    (\<exists>m. has_leading_integer (js_ToString v) m \<and> 2 ^ 1024 - 2 ^ 970 \<le> \<bar>m\<bar>) \<longrightarrow>
        clampInt v 1 100 10 = 10) \<and>
   (clampInt v 1 100 10 \<noteq> 10 \<longrightarrow>
        (\<exists>m. has_leading_integer (js_ToString v) m \<and> \<bar>m\<bar> < 2 ^ 1024 - 2 ^ 970)) \<and>
   clampInt (JNum (Finite False 79 (- 1))) 1 100 10 = 7 \<and>
   clampInt (JStr ''5abc'') 1 100 10 = 5 \<and>
   clampInt (JStr ''-3'') 1 100 10 = 1 \<and>
   clampInt JUndefined 1 100 10 = 10 \<and>
   clampInt (JStr []) 1 100 10 = 10 \<and>
   clampInt (JStr ''abc'') 1 100 10 = 10 \<and>
   clampInt (JNum NaN) 1 100 10 = 10"
proof -
  have a: "clampInt v 1 100 10 = max 1 (min 100 m)"
    if "has_leading_integer (js_ToString v) m" and "\<bar>m\<bar> < 2 ^ 1024 - 2 ^ 970" for m
    using that by (rule clampInt_leading_integer)
  have b: "clampInt v 1 100 10 = 10" if "\<forall>m. \<not> has_leading_integer (js_ToString v) m"
    using that by (rule clampInt_no_integer)
  have c: "clampInt v 1 100 10 = 10"
    if "has_leading_integer (js_ToString v) m" and "2 ^ 1024 - 2 ^ 970 \<le> \<bar>m\<bar>" for m
    using that by (rule clampInt_overflow)
  have d: "\<exists>m. has_leading_integer (js_ToString v) m \<and> \<bar>m\<bar> < 2 ^ 1024 - 2 ^ 970"
    if "clampInt v 1 100 10 \<noteq> 10"
  proof (rule ccontr)
    assume n: "\<not> (\<exists>m. has_leading_integer (js_ToString v) m \<and> \<bar>m\<bar> < 2 ^ 1024 - 2 ^ 970)"
    show False
    proof (cases "\<exists>m. has_leading_integer (js_ToString v) m")
      case True
      then obtain m where m: "has_leading_integer (js_ToString v) m" by blast
      with n have "2 ^ 1024 - 2 ^ 970 \<le> \<bar>m\<bar>" by force
      from c [OF m this] that show False by simp
    next
      case False
      then have "\<forall>m. \<not> has_leading_integer (js_ToString v) m" by blast
      from b [OF this] that show False by simp
    qed
  qed
  from a b c d example_7_9 example_5abc example_minus_3 clampInt_undefined clampInt_empty
    example_abc clampInt_NaN
  show ?thesis by blast
qed

theorem clampInt_reads_integer_prefix_witness:
  "has_leading_integer (js_ToString (JStr ''250'')) 250 \<and> \<bar>250 :: int\<bar> < 2 ^ 1024 - 2 ^ 970 \<and>
   clampInt (JStr ''250'') 1 100 10 = 100"
proof -
  have h: "has_leading_integer (js_ToString (JStr ''250'')) 250"
    using parse_250 by (simp add: parse_iff_leading_integer)
  have small: "\<bar>250 :: int\<bar> < 2 ^ 1024 - 2 ^ 970" by simp
  from clampInt_reads_integer_prefix [of "JStr ''250''"]
  have "has_leading_integer (js_ToString (JStr ''250'')) 250 \<and> \<bar>250 :: int\<bar> < 2 ^ 1024 - 2 ^ 970 \<longrightarrow>
        clampInt (JStr ''250'') 1 100 10 = max 1 (min 100 250)"
    by blast
  with h small show ?thesis by simp
qed

text \<open>
  The claim as stated fails: a string of 1 followed by 309 zeros has a leading integer,
  \<open>10\<^sup>3\<^sup>0\<^sup>9\<close>, which clamps to 100, yet it yields the fallback 10, because \<open>parseInt\<close>
  returns \<open>Infinity\<close> for it. Nor is every fractional number truncated: \<open>5e-7\<close>, whose
  truncation is 0, yields 5, the integer prefix of its string form \<open>5e-7\<close>.
\<close>

theorem huge_integer_prefix_falls_back:
  "has_leading_integer (js_ToString (JStr (CHR ''1'' # replicate 309 CHR ''0''))) (10 ^ 309) \<and>
   max 1 (min 100 (10 ^ 309 :: int)) = 100 \<and>
   clampInt (JStr (CHR ''1'' # replicate 309 CHR ''0'')) 1 100 10 = 10 \<and>
   number_trunc False 5 (- 7) = 0 \<and>
   clampInt (JNum (Finite False 5 (- 7))) 1 100 10 = 5"
  using one_zeros_leading [of 309] example_huge example_5e_7
  by (simp add: number_trunc_def)

subsection \<open>The clamped maximum is clamped to itself\<close>

lemma is_digit_digit_char: "d < 10 \<Longrightarrow> is_digit (digit_char d)"
  by (simp add: is_digit_def digit_char_def)

lemma digit_val_digit_char: "d < 10 \<Longrightarrow> digit_val (digit_char d) = d"
  by (simp add: digit_val_def digit_char_def)

lemma dec_digits_nonempty: "dec_digits n \<noteq> []"
  by (subst dec_digits.simps) simp

lemma dec_digits_digits: "list_all is_digit (dec_digits n)"
proof (induction n rule: dec_digits.induct)
  case (1 n)
  show ?case
  proof (cases "n < 10")
    case True
    then show ?thesis by (subst dec_digits.simps) (simp add: is_digit_digit_char)
  next
    case False
    with 1 show ?thesis by (subst dec_digits.simps) (simp add: is_digit_digit_char)
  qed
qed

lemma digits_value_snoc: "digits_value (xs @ [c]) = 10 * digits_value xs + digit_val c"
  by (simp add: digits_value_def)

lemma digits_value_dec_digits: "digits_value (dec_digits n) = n"
proof (induction n rule: dec_digits.induct)
  case (1 n)
  show ?case
  proof (cases "n < 10")
    case True
    then show ?thesis
      by (subst dec_digits.simps) (simp add: digits_value_def digit_val_digit_char)
  next
    case False
    with 1 show ?thesis
      by (subst dec_digits.simps) (simp add: digits_value_snoc digit_val_digit_char)
  qed
qed

lemma dec_digits_short: "n \<le> 100 \<Longrightarrow> length (dec_digits n) \<le> 3"
proof -
  assume n: "n \<le> 100"
  have one: "length (dec_digits k) = 1" if "k < 10" for k
    using that by (subst dec_digits.simps) simp
  have two: "length (dec_digits k) \<le> 2" if "k < 100" for k
  proof (cases "k < 10")
    case True
    then show ?thesis by (simp add: one)
  next
    case False
    have "k div 10 < 10" using that by simp
    with False show ?thesis by (subst dec_digits.simps) (simp add: one)
  qed
  show ?thesis
  proof (cases "n < 100")
    case True
    then show ?thesis using two [of n] by simp
  next
    case False
    with n have "n div 10 < 100" by simp
    with False show ?thesis using two [of "n div 10"] by (subst dec_digits.simps) simp
  qed
qed

lemma clampInt_number_of_int:
  assumes "1 \<le> m" and "m \<le> 100"
  shows "clampInt (number_of_int m) 1 100 10 = m"
proof -
  let ?ds = "dec_digits (nat m)"
  have len: "length ?ds \<le> 3" using assms by (intro dec_digits_short) simp
  have str: "js_ToString (number_of_int m) = ?ds"
    using assms len by (simp add: number_of_int_def pos_toString_def Let_def)
  have "js_parseInt10 (?ds @ []) = Some (int (digits_value ?ds))"
    by (intro parse_unsigned dec_digits_nonempty dec_digits_digits) simp
  then have p: "js_parseInt10 ?ds = Some m"
    using assms by (simp add: digits_value_dec_digits)
  show ?thesis
    unfolding clampInt_def str p using assms by (simp add: Number_isFinite_def)
qed

lemma listVideoIds_clamped:
  "listVideoIds ev (number_of_int (clampInt mv 1 100 10)) = listVideoIds ev mv"
  using clampInt_range [of mv] by (simp add: listVideoIds_def clampInt_number_of_int)

lemma entries_with_string_id:
  "filter js_truthy (map string_or_null es) = filter (\<lambda>x. \<exists>s. x = JStr s \<and> s \<noteq> []) es"
proof (induction es)
  case Nil
  show ?case by simp
next
  case (Cons x es)
  then show ?case by (cases x) simp_all
qed

lemma listVideoIds_failed:
  "playlist ev (clampInt mv 1 100 10) = Inl e \<Longrightarrow> listVideoIds ev mv = Inl e"
  by (simp add: listVideoIds_def)

lemma listVideoIds_listed:
  "playlist ev (clampInt mv 1 100 10) = Inr parsed \<Longrightarrow>
   listVideoIds ev mv =
     Inr (take (nat (clampInt mv 1 100 10))
            (filter (\<lambda>x. \<exists>s. x = JStr s \<and> s \<noteq> [])
               (case parsed of None \<Rightarrow> [] | Some es \<Rightarrow> es)))"
  by (simp add: listVideoIds_def entries_with_string_id)

lemma run_job_fails:
  assumes "url \<noteq> []"
    and "listVideoIds ev mv = Inl e"
    and "0 < resumes sched"
  shows "fst (run_job ev jobId now (JStr url) mv sched w) = [] \<and>
    (\<exists>j. youtubeJobs (snd (run_job ev jobId now (JStr url) mv sched w)) jobId = Some j \<and>
         status j = Error \<and> completed j = 0 \<and> results j = [] \<and>
         job_error j = Some (error_text e))"
proof -
  have "listVideoIds ev (number_of_int (clampInt mv 1 100 10)) = Inl e"
    using assms(2) by (simp add: listVideoIds_clamped)
  then have ts: "driver_turns ev (clampInt mv 1 100 10) = [TError e]"
    by (rule driver_turns_fail)
  have a: "fst (run_job ev jobId now (JStr url) mv sched w) = []"
    using assms(3) by (simp add: run_job_created [OF assms(1)] run_turns ts)
  have b: "\<exists>j. youtubeJobs (snd (run_job ev jobId now (JStr url) mv sched w)) jobId = Some j \<and>
         status j = Error \<and> completed j = 0 \<and> results j = [] \<and>
         job_error j = Some (error_text e)"
    using assms(3) by (simp add: run_job_created [OF assms(1)] run_jobs) (simp add: ts)
  from a b show ?thesis by blast
qed

lemma run_job_succeeds:
  assumes "url \<noteq> []"
    and "listVideoIds ev mv = Inr ids"
    and "length ids < resumes sched"
  shows "fst (run_job ev jobId now (JStr url) mv sched w) = [] \<and>
    (\<exists>j. youtubeJobs (snd (run_job ev jobId now (JStr url) mv sched w)) jobId = Some j \<and>
         status j = Done \<and> total j = int (length ids) \<and> completed j = int (length ids) \<and>
         length (results j) = length ids)"
proof -
  have "listVideoIds ev (number_of_int (clampInt mv 1 100 10)) = Inr ids"
    using assms(2) by (simp add: listVideoIds_clamped)
  then have ts: "driver_turns ev (clampInt mv 1 100 10) =
      map TProgress (map (call_of ev (int (length ids))) (enumerate 0 ids))
        @ [TDone (int (length ids)) (map (pushed_record ev) ids)]"
    by (rule driver_turns_ok)
  have len: "length (driver_turns ev (clampInt mv 1 100 10)) \<le> resumes sched"
    using assms(3) by (simp add: ts)
  have a: "fst (run_job ev jobId now (JStr url) mv sched w) = []"
    using len by (simp add: run_job_created [OF assms(1)] run_turns)
  have b: "\<exists>j. youtubeJobs (snd (run_job ev jobId now (JStr url) mv sched w)) jobId = Some j \<and>
         status j = Done \<and> total j = int (length ids) \<and> completed j = int (length ids) \<and>
         length (results j) = length ids"
    using len by (simp add: run_job_created [OF assms(1)] run_jobs) (simp add: ts)
  from a b show ?thesis by blast
qed

subsection \<open>Failure of the enumeration\<close>

lemma no_entries_ids: "listVideoIds no_entries_env mv = Inr []"
  by (simp add: listVideoIds_def no_entries_env_def)

text \<open>
  C2, as the code has it. The enumeration fails exactly when something throws in the
  external listing call: the binary cannot be had, the process fails, its output is not
  JSON, or it is the JSON text \<open>null\<close> (reading \<open>entries\<close> of it throws). Then, whatever
  the schedule, the job goes from \<open>running\<close> to \<open>error\<close> in the first turn of its function,
  with \<open>completed = 0\<close>, no results, and \<open>error\<close> set to the text of what was thrown.

  In every other case the enumeration succeeds, whatever the listing holds: the
  identifiers are the entries whose \<open>id\<close> is a non-empty string, in order, cut at the
  clamped maximum; entries without such an id are left out, and a listing without an
  \<open>entries\<close> array counts as one with no entries. The job then ends \<open>done\<close> with \<open>total\<close>
  and \<open>completed\<close> equal to the number of identifiers; in particular a listing with no
  parseable entry gives the empty sequence and a job that ends \<open>done\<close> with a total of 0.
\<close>

theorem enumeration_failure_aborts:
  assumes "url \<noteq> []"
  shows
   "(\<forall>e. playlist ev (clampInt mv 1 100 10) = Inl e \<longrightarrow>
       listVideoIds ev mv = Inl e \<and>
       (0 < resumes sched \<longrightarrow>
          fst (run_job ev jobId now (JStr url) mv sched w) = [] \<and>
          (\<exists>j. youtubeJobs (snd (run_job ev jobId now (JStr url) mv sched w)) jobId = Some j \<and>
               status j = Error \<and> completed j = 0 \<and> results j = [] \<and>
               job_error j = Some (error_text e)))) \<and>
    (\<forall>parsed. playlist ev (clampInt mv 1 100 10) = Inr parsed \<longrightarrow>
       (\<exists>ids. listVideoIds ev mv = Inr ids \<and>
          ids = take (nat (clampInt mv 1 100 10))
                  (filter (\<lambda>x. \<exists>s. x = JStr s \<and> s \<noteq> [])
                     (case parsed of None \<Rightarrow> [] | Some es \<Rightarrow> es)) \<and>
          length ids \<le> nat (clampInt mv 1 100 10) \<and>
          (length ids < resumes sched \<longrightarrow>
             fst (run_job ev jobId now (JStr url) mv sched w) = [] \<and>
             (\<exists>j. youtubeJobs (snd (run_job ev jobId now (JStr url) mv sched w)) jobId = Some j \<and>
                  status j = Done \<and> total j = int (length ids) \<and>
                  completed j = int (length ids) \<and> length (results j) = length ids)))) \<and>
    (\<forall>parsed. playlist ev (clampInt mv 1 100 10) = Inr parsed \<and>
        (\<forall>x \<in> set (case parsed of None \<Rightarrow> [] | Some es \<Rightarrow> es). \<not> (\<exists>s. x = JStr s \<and> s \<noteq> [])) \<and>
        0 < resumes sched \<longrightarrow>
       listVideoIds ev mv = Inr [] \<and>
       (\<exists>j. youtubeJobs (snd (run_job ev jobId now (JStr url) mv sched w)) jobId = Some j \<and>
            status j = Done \<and> total j = 0 \<and> completed j = 0 \<and> results j = []))"
proof -
  have a: "listVideoIds ev mv = Inl e \<and>
       (0 < resumes sched \<longrightarrow>
          fst (run_job ev jobId now (JStr url) mv sched w) = [] \<and>
          (\<exists>j. youtubeJobs (snd (run_job ev jobId now (JStr url) mv sched w)) jobId = Some j \<and>
               status j = Error \<and> completed j = 0 \<and> results j = [] \<and>
               job_error j = Some (error_text e)))"
    if "playlist ev (clampInt mv 1 100 10) = Inl e" for e
    using run_job_fails [OF assms listVideoIds_failed [OF that], of sched jobId now w]
      listVideoIds_failed [OF that]
    by blast
  have b: "\<exists>ids. listVideoIds ev mv = Inr ids \<and>
          ids = take (nat (clampInt mv 1 100 10))
                  (filter (\<lambda>x. \<exists>s. x = JStr s \<and> s \<noteq> [])
                     (case parsed of None \<Rightarrow> [] | Some es \<Rightarrow> es)) \<and>
          length ids \<le> nat (clampInt mv 1 100 10) \<and>
          (length ids < resumes sched \<longrightarrow>
             fst (run_job ev jobId now (JStr url) mv sched w) = [] \<and>
             (\<exists>j. youtubeJobs (snd (run_job ev jobId now (JStr url) mv sched w)) jobId = Some j \<and>
                  status j = Done \<and> total j = int (length ids) \<and>
                  completed j = int (length ids) \<and> length (results j) = length ids))"
    if p: "playlist ev (clampInt mv 1 100 10) = Inr parsed" for parsed
  proof -
    let ?ids = "take (nat (clampInt mv 1 100 10))
                  (filter (\<lambda>x. \<exists>s. x = JStr s \<and> s \<noteq> [])
                     (case parsed of None \<Rightarrow> [] | Some es \<Rightarrow> es))"
    have l: "listVideoIds ev mv = Inr ?ids" using p by (rule listVideoIds_listed)
    have n: "length ?ids \<le> nat (clampInt mv 1 100 10)" by simp
    from l n run_job_succeeds [OF assms l, of sched jobId now w] show ?thesis by blast
  qed
  have c: "listVideoIds ev mv = Inr [] \<and>
       (\<exists>j. youtubeJobs (snd (run_job ev jobId now (JStr url) mv sched w)) jobId = Some j \<and>
            status j = Done \<and> total j = 0 \<and> completed j = 0 \<and> results j = [])"
    if p: "playlist ev (clampInt mv 1 100 10) = Inr parsed"
      and none: "\<forall>x \<in> set (case parsed of None \<Rightarrow> [] | Some es \<Rightarrow> es). \<not> (\<exists>s. x = JStr s \<and> s \<noteq> [])"
      and r: "0 < resumes sched" for parsed
  proof -
    have "filter (\<lambda>x. \<exists>s. x = JStr s \<and> s \<noteq> []) (case parsed of None \<Rightarrow> [] | Some es \<Rightarrow> es) = []"
      using none by (simp add: filter_empty_conv)
    then have l: "listVideoIds ev mv = Inr []"
      using listVideoIds_listed [OF p] by simp
    have r': "length ([] :: jsval list) < resumes sched" using r by simp
    from run_job_succeeds [OF assms l r', of jobId now w] l show ?thesis by simp
  qed
  from a b c show ?thesis by blast
qed

lemma failing_playlist: "playlist failing_playlist_env mx = Inl (Exn ''Error'' ''yt-dlp failed'')"
  by (simp add: failing_playlist_env_def)

lemma example_playlist:
  "playlist example_env mx = Inr (Some [JStr ''a'', JStr ''b'', JNull, JStr ''c''])"
  by (simp add: example_env_def)

theorem enumeration_failure_aborts_witness:
  "playlist failing_playlist_env (clampInt JUndefined 1 100 10) = Inl (Exn ''Error'' ''yt-dlp failed'') \<and>
   0 < resumes [GetStream 0, Resume] \<and>
   (\<exists>j. youtubeJobs (snd (run_job failing_playlist_env
            ''j1'' ''t0'' (JStr ''u'') JUndefined [GetStream 0, Resume] empty_world)) ''j1'' = Some j \<and>
        status j = Error \<and> completed j = 0 \<and> results j = [] \<and>
        job_error j = Some ''yt-dlp failed'') \<and>
   playlist example_env (clampInt (JNum (Finite False 3 0)) 1 100 10)
     = Inr (Some [JStr ''a'', JStr ''b'', JNull, JStr ''c'']) \<and>
   listVideoIds example_env (JNum (Finite False 3 0)) = Inr [JStr ''a'', JStr ''b'', JStr ''c'']"
proof -
  have h0: "''u'' \<noteq> []" by simp
  have h2: "0 < resumes [GetStream 0, Resume]" by (simp add: resumes_def)
  from enumeration_failure_aborts [where url = "''u''" and ev = failing_playlist_env
      and mv = JUndefined and sched = "[GetStream 0, Resume]" and jobId = "''j1''"
      and now = "''t0''" and w = empty_world, OF h0]
  have "playlist failing_playlist_env (clampInt JUndefined 1 100 10)
          = Inl (Exn ''Error'' ''yt-dlp failed'') \<longrightarrow>
       (0 < resumes [GetStream 0, Resume] \<longrightarrow>
        (\<exists>j. youtubeJobs (snd (run_job failing_playlist_env
            ''j1'' ''t0'' (JStr ''u'') JUndefined [GetStream 0, Resume] empty_world)) ''j1'' = Some j \<and>
        status j = Error \<and> completed j = 0 \<and> results j = [] \<and>
        job_error j = Some (error_text (Exn ''Error'' ''yt-dlp failed''))))"
    by blast
  with failing_playlist h2
  have 1: "\<exists>j. youtubeJobs (snd (run_job failing_playlist_env
            ''j1'' ''t0'' (JStr ''u'') JUndefined [GetStream 0, Resume] empty_world)) ''j1'' = Some j \<and>
        status j = Error \<and> completed j = 0 \<and> results j = [] \<and>
        job_error j = Some ''yt-dlp failed''"
    by (simp add: error_text_def)
  from enumeration_failure_aborts [where url = "''u''" and ev = example_env
      and mv = "JNum (Finite False 3 0)" and sched = "[]" and jobId = "''j1''"
      and now = "''t0''" and w = empty_world, OF h0]
  have "playlist example_env (clampInt (JNum (Finite False 3 0)) 1 100 10)
          = Inr (Some [JStr ''a'', JStr ''b'', JNull, JStr ''c'']) \<longrightarrow>
        listVideoIds example_env (JNum (Finite False 3 0)) =
          Inr (take (nat (clampInt (JNum (Finite False 3 0)) 1 100 10))
                 (filter (\<lambda>x. \<exists>s. x = JStr s \<and> s \<noteq> [])
                    (case Some [JStr ''a'', JStr ''b'', JNull, JStr ''c''] of
                       None \<Rightarrow> [] | Some es \<Rightarrow> es)))"
    by blast
  with example_playlist
  have 2: "listVideoIds example_env (JNum (Finite False 3 0)) = Inr [JStr ''a'', JStr ''b'', JStr ''c'']"
    by (simp add: clampInt_3)
  from 1 2 failing_playlist example_playlist h2 show ?thesis by blast
qed

text \<open>
  The claim as stated fails: a listing that returns no parseable entries (here an object
  without an \<open>entries\<close> array) does not abort the batch; the job ends \<open>done\<close> with a total
  of 0.
\<close>

theorem no_entries_job_is_done:
  "playlist no_entries_env 10 = Inr None \<and>
   map_option status (youtubeJobs (snd (run_job no_entries_env ''j1'' ''t0'' (JStr ''u'')
       (JNum (Finite False 3 0)) [Resume] empty_world)) ''j1'') = Some Done \<and>
   map_option total (youtubeJobs (snd (run_job no_entries_env ''j1'' ''t0'' (JStr ''u'')
       (JNum (Finite False 3 0)) [Resume] empty_world)) ''j1'') = Some 0"
proof -
  have h0: "''u'' \<noteq> []" by simp
  have ts: "driver_turns no_entries_env mx = [TDone 0 []]" for mx
    using driver_turns_ok [OF no_entries_ids, of mx] by simp
  show ?thesis
    by (simp add: run_job_created[OF h0] ts) (simp add: on_done_def empty_world_def no_entries_env_def)
qed

subsection \<open>A stream request for an unknown job\<close>

lemma registered_get_stream:
  "registered jobId r w \<Longrightarrow> registered jobId r (get_stream jobId r' w)"
  by (auto simp: registered_def get_stream_streams attachStream_def Let_def split: option.splits)

lemma registered_on_close:
  "r' \<noteq> r \<Longrightarrow> registered jobId r w \<Longrightarrow> registered jobId r (on_close jobId r' w)"
  by (auto simp: registered_def on_close_def split: option.splits)

lemma not_registered_on_close: "\<not> registered jobId r (on_close jobId r w)"
  by (auto simp: registered_def on_close_def split: option.splits)

lemma run_idle_ended: "ended (snd (run jobId sched ([], w))) = ended w"
proof (induction sched arbitrary: w)
  case Nil
  show ?case by simp
next
  case (Cons a sched)
  then show ?case by (cases a) simp_all
qed

lemma run_idle_jobs: "youtubeJobs (snd (run jobId sched ([], w))) = youtubeJobs w"
proof (induction sched arbitrary: w)
  case Nil
  show ?case by simp
next
  case (Cons a sched)
  then show ?case by (cases a) simp_all
qed

lemma run_idle_registered:
  "leaves_alone sched r \<Longrightarrow> registered jobId r w \<Longrightarrow>
   registered jobId r (snd (run jobId sched ([], w)))"
proof (induction sched arbitrary: w)
  case Nil
  then show ?case by simp
next
  case (Cons a sched)
  have la: "leaves_alone sched r" using Cons.prems(1) by (simp add: leaves_alone_def)
  show ?case
  proof (cases a)
    case Resume
    with Cons.IH [OF la Cons.prems(2)] show ?thesis by simp
  next
    case (GetStream r')
    with Cons.IH [OF la registered_get_stream [OF Cons.prems(2)]] show ?thesis by simp
  next
    case (Close r')
    then have "r' \<noteq> r" using Cons.prems(1) by (auto simp: leaves_alone_def)
    from Cons.IH [OF la registered_on_close [OF this Cons.prems(2)]] Close
    show ?thesis by simp
  qed
qed

text \<open>
  C7, as the code has it. A stream request for a job id the registry does not know gets
  exactly one event, \<open>error\<close> with the text \<open>Unknown jobId\<close>, at once. The handler does not
  end the response: when it returns, the response is open and registered under that id.
  As long as no job is created under that id, it stays so and nothing more is written to
  it, whatever other stream requests and disconnects are served (in the schedule no
  function of a job runs: there is no turn to resume); the \<open>close\<close> handler, run when the
  client disconnects, takes it out of the set.
\<close>

theorem unknown_job_stream:
  assumes "youtubeJobs w jobId = None" and "\<not> ended w res" and "leaves_alone sched res"
  shows "sent (get_stream jobId res w) res = sent w res @ [(''error'', ErrorData ''Unknown jobId'')] \<and>
         \<not> ended (get_stream jobId res w) res \<and>
         registered jobId res (get_stream jobId res w) \<and>
         youtubeJobs (snd (run jobId sched ([], get_stream jobId res w))) jobId = None \<and>
         sent (snd (run jobId sched ([], get_stream jobId res w))) res
           = sent w res @ [(''error'', ErrorData ''Unknown jobId'')] \<and>
         \<not> ended (snd (run jobId sched ([], get_stream jobId res w))) res \<and>
         registered jobId res (snd (run jobId sched ([], get_stream jobId res w))) \<and>
         \<not> registered jobId res
             (on_close jobId res (snd (run jobId sched ([], get_stream jobId res w))))"
proof -
  have s: "sent (get_stream jobId res w) res = sent w res @ [(''error'', ErrorData ''Unknown jobId'')]"
    using assms(1,2) by (simp add: get_stream_def attachStream_def sseSend_def Let_def)
  have e: "\<not> ended (get_stream jobId res w) res" using assms(2) by simp
  have r: "registered jobId res (get_stream jobId res w)"
    by (auto simp: registered_def get_stream_streams attachStream_def Let_def split: option.splits)
  have j: "youtubeJobs (snd (run jobId sched ([], get_stream jobId res w))) jobId = None"
    using assms(1) by (simp add: run_idle_jobs)
  have s': "sent (snd (run jobId sched ([], get_stream jobId res w))) res
           = sent w res @ [(''error'', ErrorData ''Unknown jobId'')]"
    using run_idle [OF assms(3), of jobId "get_stream jobId res w"] s by simp
  have e': "\<not> ended (snd (run jobId sched ([], get_stream jobId res w))) res"
    using e by (simp add: run_idle_ended)
  have r': "registered jobId res (snd (run jobId sched ([], get_stream jobId res w)))"
    using assms(3) r by (rule run_idle_registered)
  from s e r j s' e' r' not_registered_on_close show ?thesis by blast
qed

theorem unknown_job_stream_witness:
  "youtubeJobs empty_world ''nope'' = None \<and> \<not> ended empty_world 0 \<and>
   leaves_alone [GetStream 1, Resume, Close 1] 0 \<and>
   sent (get_stream ''nope'' 0 empty_world) 0 = [(''error'', ErrorData ''Unknown jobId'')] \<and>
   \<not> ended (get_stream ''nope'' 0 empty_world) 0 \<and>
   sent (snd (run ''nope'' [GetStream 1, Resume, Close 1] ([], get_stream ''nope'' 0 empty_world))) 0
     = [(''error'', ErrorData ''Unknown jobId'')] \<and>
   \<not> ended (snd (run ''nope'' [GetStream 1, Resume, Close 1]
                 ([], get_stream ''nope'' 0 empty_world))) 0 \<and>
   registered ''nope'' 0 (snd (run ''nope'' [GetStream 1, Resume, Close 1]
                 ([], get_stream ''nope'' 0 empty_world)))"
proof -
  have h1: "youtubeJobs empty_world ''nope'' = None" by (simp add: empty_world_def)
  have h2: "\<not> ended empty_world 0" by (simp add: empty_world_def)
  have h3: "leaves_alone [GetStream 1, Resume, Close 1] 0" by (simp add: leaves_alone_def)
  have h4: "sent empty_world 0 = []" by (simp add: empty_world_def)
  from unknown_job_stream [OF h1 h2 h3] h1 h2 h3 h4 show ?thesis by simp
qed

text \<open>The claim as stated fails: after the \<open>error\<close> event the stream has not been ended.\<close>

theorem unknown_job_stream_stays_open:
  "youtubeJobs empty_world ''nope'' = None \<and>
   ended (get_stream ''nope'' 0 empty_world) 0 = False \<and>
   youtubeStreams (get_stream ''nope'' 0 empty_world) ''nope'' = Some [0]"
  by (simp add: get_stream_def attachStream_def sseSend_def Let_def empty_world_def)

end
